theory Spec2Isabelle
  imports Complex_Main
begin

section \<open>Floats\<close>

text \<open>
  The program is \<^verbatim>\<open>heat_sink_pic.py\<close>: the class \<^verbatim>\<open>CustomValidatorPlotter\<close>
  (\<^verbatim>\<open>__call__\<close>, \<^verbatim>\<open>heat_sink_mask\<close>, \<^verbatim>\<open>interpolate_output\<close>) and the geometry
  set-up at the start of \<^verbatim>\<open>run\<close>.

  A Python float and an element of a float array is an IEEE 754 binary64 number. A float
  is a not-a-number, an infinity, or finite; a finite float is modelled as the real number
  it stands for (the sign of a zero is not kept: no comparison of the program sees it).
  \<open>float_max\<close> is the largest finite double, \<^verbatim>\<open>(2 - 2**-52) * 2**1023\<close>, about
  \<^verbatim>\<open>1.797e308\<close>.
\<close>

datatype val = Finite real | PosInf | NegInf | NaN

definition float_max :: real where
  "float_max = 2 ^ 1024 - 2 ^ 971"

text \<open>
  Rounding to the nearest, ties to even. \<open>rne\<close> rounds a real number to an integer.
  \<open>double r\<close> is the multiple of \<open>2 ^ e\<close> nearest to \<open>r\<close>, where \<open>2 ^ e\<close> is the
  spacing of the doubles at the magnitude of \<open>r\<close>: 53 significant bits, and the fixed
  spacing \<open>2 ^ -1074\<close> of the subnormal doubles at the bottom. A float literal of the
  source such as \<^verbatim>\<open>0.1\<close> is \<open>double 0.1\<close>. \<open>fl r\<close> is the float that an arithmetic
  operation with the exact result \<open>r\<close> delivers: \<open>double r\<close>, or an infinity when that
  lies beyond \<open>float_max\<close>.
\<close>

definition rne :: "real \<Rightarrow> int" where
  "rne x =
     (let f = \<lfloor>x\<rfloor>; d = x - of_int f in
      if d < 1 / 2 then f else if 1 / 2 < d then f + 1 else if even f then f else f + 1)"

definition double :: "real \<Rightarrow> real" where
  "double r =
     (if r = 0 then 0
      else let e = max (\<lfloor>log 2 \<bar>r\<bar>\<rfloor> - 52) (- 1074) in
           of_int (rne (r / 2 powr of_int e)) * 2 powr of_int e)"

definition fl :: "real \<Rightarrow> val" where
  "fl r =
     (let d = double r in
      if float_max < d then PosInf else if d < - float_max then NegInf else Finite d)"

text \<open>
  Addition, subtraction and multiplication of two floats, as IEEE 754 has them on the
  special values; \<open>vscale\<close> is the multiplication by a finite float \<open>c\<close>.
\<close>

fun vadd :: "val \<Rightarrow> val \<Rightarrow> val" where
  "vadd NaN _ = NaN"
| "vadd _ NaN = NaN"
| "vadd (Finite a) (Finite b) = fl (a + b)"
| "vadd (Finite a) PosInf = PosInf"
| "vadd (Finite a) NegInf = NegInf"
| "vadd PosInf NegInf = NaN"
| "vadd PosInf _ = PosInf"
| "vadd NegInf PosInf = NaN"
| "vadd NegInf _ = NegInf"

fun vsub :: "val \<Rightarrow> val \<Rightarrow> val" where
  "vsub NaN _ = NaN"
| "vsub _ NaN = NaN"
| "vsub (Finite a) (Finite b) = fl (a - b)"
| "vsub (Finite a) PosInf = NegInf"
| "vsub (Finite a) NegInf = PosInf"
| "vsub PosInf PosInf = NaN"
| "vsub PosInf _ = PosInf"
| "vsub NegInf NegInf = NaN"
| "vsub NegInf _ = NegInf"

fun vscale :: "val \<Rightarrow> real \<Rightarrow> val" where
  "vscale NaN c = NaN"
| "vscale (Finite a) c = fl (a * c)"
| "vscale PosInf c = (if 0 < c then PosInf else if c < 0 then NegInf else NaN)"
| "vscale NegInf c = (if 0 < c then NegInf else if c < 0 then PosInf else NaN)"

fun vmul :: "val \<Rightarrow> val \<Rightarrow> val" where
  "vmul NaN _ = NaN"
| "vmul _ NaN = NaN"
| "vmul v (Finite c) = vscale v c"
| "vmul (Finite a) w = vscale w a"
| "vmul PosInf PosInf = PosInf"
| "vmul PosInf NegInf = NegInf"
| "vmul NegInf PosInf = NegInf"
| "vmul NegInf NegInf = PosInf"

text \<open>The comparison \<^verbatim>\<open>a <= b\<close> of two floats: false when one of them is a not-a-number.\<close>

fun vle :: "val \<Rightarrow> val \<Rightarrow> bool" where
  "vle NaN _ = False"
| "vle _ NaN = False"
| "vle (Finite a) (Finite b) = (a \<le> b)"
| "vle NegInf _ = True"
| "vle _ PosInf = True"
| "vle PosInf _ = False"
| "vle (Finite a) NegInf = False"

text \<open>
  \<^verbatim>\<open>j * gap\<close> with an integer \<open>j\<close> turns \<open>j\<close> into a float first, which is exact up to
  \<open>2 ^ 53\<close> and rounds beyond. (From \<open>2 ^ 1024\<close> on Python raises OverflowError instead
  of giving an infinity; a loop index cannot get there.)
\<close>

definition float_of_int :: "int \<Rightarrow> val" where
  "float_of_int j = fl (of_int j)"

section \<open>Arrays\<close>

text \<open>
  A two-dimensional numpy array is a list of rows. The coordinates of the sample points
  and of the grid are finite floats and are kept as real numbers; the arithmetic inside
  the library call \<^verbatim>\<open>np.linspace\<close> is taken as exact. \<^verbatim>\<open>range(n)\<close> is the list
  \<open>0, ..., n - 1\<close>, empty when \<open>n \<le> 0\<close>.
\<close>

type_synonym grid = "real list list"
type_synonym mask = "bool list list"

definition shape :: "'a list list \<Rightarrow> nat list" where
  "shape a = map length a"

definition py_range :: "int \<Rightarrow> int list" where
  "py_range n = map int [0..<nat n]"

text \<open>\<^verbatim>\<open>np.zeros_like(xi, dtype=bool)\<close>\<close>

definition zeros_like :: "'a list list \<Rightarrow> mask" where
  "zeros_like a = map (map (\<lambda>_. False)) a"

text \<open>Elementwise comparison of an array with a scalar: \<^verbatim>\<open>a >= c\<close>, \<^verbatim>\<open>a <= c\<close>.\<close>

definition np_ge :: "grid \<Rightarrow> val \<Rightarrow> mask" where
  "np_ge a c = map (map (\<lambda>v. vle c (Finite v))) a"

definition np_le :: "grid \<Rightarrow> val \<Rightarrow> mask" where
  "np_le a c = map (map (\<lambda>v. vle (Finite v) c)) a"

text \<open>Elementwise \<^verbatim>\<open>&\<close> and \<^verbatim>\<open>|\<close> of two boolean arrays of one shape.\<close>

definition np_and :: "mask \<Rightarrow> mask \<Rightarrow> mask" where
  "np_and a b = map2 (map2 (\<and>)) a b"

definition np_or :: "mask \<Rightarrow> mask \<Rightarrow> mask" where
  "np_or a b = map2 (map2 (\<or>)) a b"

section \<open>The fin mask\<close>

text \<open>
  \<^verbatim>\<open>heat_sink_mask\<close> fixes six local constants and then runs through the fins. The
  constants are collected in a record, so that the loop can be stated for any values of
  them; \<open>hard_coded\<close> holds the values of the source, the float literals rounded as
  Python reads them and \<^verbatim>\<open>0.15 + 0.1\<close> added as floats.
\<close>

record fin_spec =
  heat_sink_x :: val
  heat_sink_y_start :: val
  fin_thickness :: val
  nr_fins :: int
  gap :: val
  length_hs :: val

definition hard_coded :: fin_spec where
  "hard_coded = \<lparr> heat_sink_x = Finite (- 1), heat_sink_y_start = Finite (double (- 0.3)),
     fin_thickness = Finite (double 0.1), nr_fins = 3,
     gap = vadd (Finite (double 0.15)) (Finite (double 0.1)),
     length_hs = Finite (double 1.0) \<rparr>"

text \<open>\<^verbatim>\<open>fin_y = heat_sink_y_start + j * gap\<close>\<close>

definition fin_y :: "fin_spec \<Rightarrow> int \<Rightarrow> val" where
  "fin_y fs j = vadd (heat_sink_y_start fs) (vmul (float_of_int j) (gap fs))"

text \<open>
  One pass of the loop body, for the fin \<open>j\<close>:
  \<^verbatim>\<open>mask |= ((xi >= heat_sink_x) & (xi <= heat_sink_x + length) &
            (yi >= fin_y) & (yi <= fin_y + fin_thickness))\<close>.
\<close>

definition fin_pass :: "fin_spec \<Rightarrow> grid \<Rightarrow> grid \<Rightarrow> mask \<Rightarrow> int \<Rightarrow> mask" where
  "fin_pass fs xi yi m j =
     np_or m
       (np_and
         (np_and
           (np_and (np_ge xi (heat_sink_x fs))
              (np_le xi (vadd (heat_sink_x fs) (length_hs fs))))
           (np_ge yi (fin_y fs j)))
         (np_le yi (vadd (fin_y fs j) (fin_thickness fs))))"

definition heat_sink_mask_with :: "fin_spec \<Rightarrow> grid \<Rightarrow> grid \<Rightarrow> mask" where
  "heat_sink_mask_with fs xi yi =
     foldl (fin_pass fs xi yi) (zeros_like xi) (py_range (nr_fins fs))"

definition heat_sink_mask :: "grid \<Rightarrow> grid \<Rightarrow> mask" where
  "heat_sink_mask xi yi = heat_sink_mask_with hard_coded xi yi"

text \<open>The four tests of the loop body for the fin \<open>j\<close>, on one coordinate pair.\<close>

definition in_fin :: "fin_spec \<Rightarrow> int \<Rightarrow> real \<Rightarrow> real \<Rightarrow> bool" where
  "in_fin fs j x y =
     (vle (heat_sink_x fs) (Finite x) \<and> vle (Finite x) (vadd (heat_sink_x fs) (length_hs fs)) \<and>
      vle (fin_y fs j) (Finite y) \<and> vle (Finite y) (vadd (fin_y fs j) (fin_thickness fs)))"

section \<open>The fins of the physical geometry in \<^verbatim>\<open>run\<close>\<close>

text \<open>
  \<^verbatim>\<open>Rectangle(point_1, point_2)\<close> of the geometry library is kept as its two corner
  points; the union \<^verbatim>\<open>heat_sink + fin\<close> is kept as the list of the rectangles joined.
  The loop of \<^verbatim>\<open>run\<close> moves \<^verbatim>\<open>heat_sink_origin\<close> up by \<^verbatim>\<open>gap\<close> before each
  further fin. The corner coordinates are Python floats, added as floats.
\<close>

type_synonym point = "val \<times> val"

datatype rectangle = Rectangle point point

definition heat_sink_origin :: point where
  "heat_sink_origin = (Finite (- 1), Finite (double (- 0.3)))"

definition nr_heat_sink_fins :: int where
  "nr_heat_sink_fins = 3"

definition run_gap :: val where
  "run_gap = vadd (Finite (double 0.15)) (Finite (double 0.1))"

definition heat_sink_length :: val where
  "heat_sink_length = Finite (double 1.0)"

definition heat_sink_fin_thickness :: val where
  "heat_sink_fin_thickness = Finite (double 0.1)"

definition fin_at :: "point \<Rightarrow> rectangle" where
  "fin_at origin =
     Rectangle origin
       (vadd (fst origin) heat_sink_length, vadd (snd origin) heat_sink_fin_thickness)"

text \<open>The loop state is the current origin and the rectangles joined so far.\<close>

definition run_pass :: "point \<times> rectangle list \<Rightarrow> int \<Rightarrow> point \<times> rectangle list" where
  "run_pass st i =
     (let origin = (fst (fst st), vadd (snd (fst st)) run_gap) in
      (origin, snd st @ [fin_at origin]))"

definition run_heat_sink :: "rectangle list" where
  "run_heat_sink =
     snd (foldl run_pass (heat_sink_origin, [fin_at heat_sink_origin])
            (map int [1..<nat nr_heat_sink_fins]))"

text \<open>The closed rectangle between the two corner points, as a set of coordinate pairs.\<close>

fun inside :: "rectangle \<Rightarrow> real \<Rightarrow> real \<Rightarrow> bool" where
  "inside (Rectangle (x1, y1) (x2, y2)) x y =
     (vle x1 (Finite x) \<and> vle (Finite x) x2 \<and> vle y1 (Finite y) \<and> vle (Finite y) y2)"

text \<open>
  The rectangle whose four bounds the loop body of \<^verbatim>\<open>heat_sink_mask\<close> tests for the
  fin \<open>j\<close>: lower left corner \<open>(heat_sink_x, fin_y)\<close>, upper right corner
  \<open>(heat_sink_x + length, fin_y + fin_thickness)\<close>.
\<close>

definition mask_rectangle :: "fin_spec \<Rightarrow> int \<Rightarrow> rectangle" where
  "mask_rectangle fs j =
     Rectangle (heat_sink_x fs, fin_y fs j)
       (vadd (heat_sink_x fs) (length_hs fs), vadd (fin_y fs j) (fin_thickness fs))"

section \<open>Field values\<close>

text \<open>A field is an array of floats.\<close>

type_synonym field = "val list"
type_synonym vgrid = "val list list"

text \<open>
  \<^verbatim>\<open>np.nan_to_num(val, nan=np.nan)\<close>, on one element: a not-a-number becomes the value
  given for \<^verbatim>\<open>nan\<close>, here a not-a-number again; \<^verbatim>\<open>posinf\<close> and \<^verbatim>\<open>neginf\<close> are not
  given, so numpy puts the largest and the most negative finite float for the infinities.
\<close>

fun nan_to_num1 :: "val \<Rightarrow> val" where
  "nan_to_num1 NaN = NaN"
| "nan_to_num1 PosInf = Finite float_max"
| "nan_to_num1 NegInf = Finite (- float_max)"
| "nan_to_num1 (Finite r) = Finite r"

definition nan_to_num :: "vgrid \<Rightarrow> vgrid" where
  "nan_to_num a = map (map nan_to_num1) a"

text \<open>Elementwise \<^verbatim>\<open>a - b\<close> of two arrays of one shape, and \<^verbatim>\<open>a * c\<close> with a float \<open>c\<close>.\<close>

definition np_sub :: "vgrid \<Rightarrow> vgrid \<Rightarrow> vgrid" where
  "np_sub a b = map2 (map2 vsub) a b"

definition np_scale :: "field \<Rightarrow> real \<Rightarrow> field" where
  "np_scale a c = map (\<lambda>v. vscale v c) a"

section \<open>Errors\<close>

text \<open>
  An exception is the left summand of the result. \<open>thenE\<close> runs the next step on a
  value and passes an error on, as an uncaught exception does.
\<close>

datatype error = KeyError string | ValueError | IndexError | TypeError | QhullError

definition thenE :: "error + 'a \<Rightarrow> ('a \<Rightarrow> error + 'b) \<Rightarrow> error + 'b" where
  "thenE m f = (case m of Inl e \<Rightarrow> Inl e | Inr a \<Rightarrow> f a)"

text \<open>A list comprehension whose element expression may raise: the first error ends it.\<close>

fun comprehension :: "('a \<Rightarrow> error + 'b) \<Rightarrow> 'a list \<Rightarrow> error + 'b list" where
  "comprehension f [] = Inr []"
| "comprehension f (a # as) =
     thenE (f a) (\<lambda>b. thenE (comprehension f as) (\<lambda>bs. Inr (b # bs)))"

text \<open>\<^verbatim>\<open>d[k]\<close> on a dictionary.\<close>

definition getitem :: "(string \<rightharpoonup> 'a) \<Rightarrow> string \<Rightarrow> error + 'a" where
  "getitem d k = (case d k of None \<Rightarrow> Inl (KeyError k) | Some a \<Rightarrow> Inr a)"

text \<open>\<^verbatim>\<open>a.min()\<close> and \<^verbatim>\<open>a.max()\<close>: numpy raises ValueError on an empty array.\<close>

fun np_min :: "real list \<Rightarrow> error + real" where
  "np_min [] = Inl ValueError"
| "np_min (a # as) = Inr (foldl min a as)"

fun np_max :: "real list \<Rightarrow> error + real" where
  "np_max [] = Inl ValueError"
| "np_max (a # as) = Inr (foldl max a as)"

section \<open>The regular grid\<close>

text \<open>
  \<^verbatim>\<open>np.linspace(start, stop, num)\<close>: \<open>num\<close> points, the \<open>i\<close>-th at
  \<open>start + i * step\<close> with \<open>step = (stop - start) / (num - 1)\<close>.
  \<^verbatim>\<open>np.meshgrid(xs, ys, indexing="ij")\<close>: two arrays of shape
  \<open>(len(xs), len(ys))\<close> with \<open>xi[i][j] = xs[i]\<close> and \<open>yi[i][j] = ys[j]\<close>.
\<close>

definition linspace :: "real \<Rightarrow> real \<Rightarrow> nat \<Rightarrow> real list" where
  "linspace start stop num =
     map (\<lambda>i. start + of_nat i * ((stop - start) / of_nat (num - 1))) [0..<num]"

definition meshgrid_ij :: "real list \<Rightarrow> real list \<Rightarrow> grid \<times> grid" where
  "meshgrid_ij xs ys = (map (\<lambda>x. map (\<lambda>_. x) ys) xs, map (\<lambda>_. ys) xs)"

section \<open>Interpolation\<close>

text \<open>
  \<^verbatim>\<open>scipy.interpolate.griddata((x, y), value, (xi, yi), method='linear')\<close> belongs to
  the library. It builds a piecewise linear interpolant from the scattered points and
  their values, which raises on an input it rejects, and evaluates the interpolant at
  every query point; the result has the shape of the query arrays, and a query point the
  interpolant does not cover gets a not-a-number. The interpolant is a parameter \<open>lin\<close> of
  the model: \<open>lin x y value\<close> is the error raised, or the function from a query point to
  its value.
\<close>

type_synonym interpolant = "real list \<Rightarrow> real list \<Rightarrow> field \<Rightarrow> error + (real \<Rightarrow> real \<Rightarrow> val)"

definition griddata ::
  "interpolant \<Rightarrow> real list \<Rightarrow> real list \<Rightarrow> field \<Rightarrow> grid \<Rightarrow> grid \<Rightarrow> error + vgrid" where
  "griddata lin x y value xi yi =
     thenE (lin x y value) (\<lambda>f. Inr (map2 (map2 f) xi yi))"

text \<open>
  \<^verbatim>\<open>a[mask] = np.nan\<close> with a boolean array \<open>mask\<close>: numpy raises IndexError when the
  shape of the mask is not the shape of \<open>a\<close>.
\<close>

definition where_masked :: "vgrid \<Rightarrow> mask \<Rightarrow> vgrid" where
  "where_masked a m = map2 (map2 (\<lambda>v b. if b then NaN else v)) a m"

definition set_masked :: "vgrid \<Rightarrow> mask \<Rightarrow> error + vgrid" where
  "set_masked a m = (if shape m = shape a then Inr (where_masked a m) else Inl IndexError)"

text \<open>
  The loop \<^verbatim>\<open>for i in range(len(interpolated_values)):
  interpolated_values[i][mask] = np.nan\<close>, over the indices still to visit.
\<close>

fun mask_loop :: "vgrid list \<Rightarrow> mask \<Rightarrow> nat list \<Rightarrow> error + vgrid list" where
  "mask_loop ivs m [] = Inr ivs"
| "mask_loop ivs m (i # is) =
     thenE (set_masked (ivs ! i) m) (\<lambda>a. mask_loop (ivs[i := a]) m is)"

type_synonym extent = "real \<times> real \<times> real \<times> real"

text \<open>
  The first statement of \<^verbatim>\<open>interpolate_output\<close>: the two coordinate arrays of the
  100 by 100 grid over the extent \<open>(x_min, x_max, y_min, y_max)\<close>.
\<close>

definition mesh :: "extent \<Rightarrow> grid \<times> grid" where
  "mesh extent =
     (case extent of (e0, e1, e2, e3) \<Rightarrow>
        meshgrid_ij (linspace e0 e1 100) (linspace e2 e3 100))"

definition interpolate_output ::
  "interpolant \<Rightarrow> real list \<Rightarrow> real list \<Rightarrow> field list \<Rightarrow> extent \<Rightarrow> error + vgrid list" where
  "interpolate_output lin x y values extent =
     (case mesh extent of (xi, yi) \<Rightarrow>
       (let mask = heat_sink_mask xi yi in
        thenE (comprehension (\<lambda>value. griddata lin x y value xi yi) values)
          (\<lambda>interpolated_values.
             mask_loop (map nan_to_num interpolated_values) mask
               [0..<length interpolated_values])))"

section \<open>The plot\<close>

text \<open>
  The figure is kept as what the code puts into it: the overall title and, for each of
  the fifteen axes in row order, the title, the axis labels, the image handed to
  \<^verbatim>\<open>imshow\<close> (the transposed data), the extent and the colour limits, if any.
  The three mappings of the call hold arrays of shape \<open>(N, k)\<close>; the code reads column
  \<open>0\<close> of each and nothing else, so a mapping is modelled as sending a name to that
  column.
\<close>

record panel =
  title :: string
  xlabel :: string
  ylabel :: string
  image :: vgrid
  img_extent :: extent
  clim :: "(real \<times> real) option"

record figure =
  suptitle :: string
  panels :: "panel list"

definition colorbar_limits :: "string \<rightharpoonup> real \<times> real" where
  "colorbar_limits =
     [''p'' \<mapsto> (-1, 9), ''u'' \<mapsto> (0, double 2.2),
      ''v'' \<mapsto> (double (- 1.2), double 1.2),
      ''nu'' \<mapsto> (double 0.01, double 0.04), ''c'' \<mapsto> (0, 55)]"

definition titles :: "string list" where
  "titles =
     [''Modulus: p'', ''OpenFOAM: p'', ''Difference: p'',
      ''Modulus: u'', ''OpenFOAM: u'', ''Difference: u'',
      ''Modulus: v'', ''OpenFOAM: v'', ''Difference: v'',
      ''Modulus: nu'', ''OpenFOAM: nu'', ''Difference: nu'',
      ''Modulus: c'', ''OpenFOAM: c'', ''Difference: c'']"

definition variables :: "string list" where
  "variables =
     [''p'', ''p'', ''None'', ''u'', ''u'', ''None'', ''v'', ''v'', ''None'',
      ''nu'', ''nu'', ''None'', ''c'', ''c'', ''None'']"

text \<open>
  One pass of the loop over the axes: the colour limits of the variable, unless the
  variable is \<^verbatim>\<open>"None"\<close>; a name missing from the table would raise KeyError.
\<close>

definition draw :: "extent \<Rightarrow> vgrid list \<Rightarrow> nat \<Rightarrow> error + panel" where
  "draw extent data i =
     (let var = variables ! i in
      thenE (if var \<noteq> ''None'' then thenE (getitem colorbar_limits var) (\<lambda>l. Inr (Some l))
             else Inr None)
        (\<lambda>limits. Inr \<lparr> title = titles ! i, xlabel = ''x'', ylabel = ''y'',
                        image = transpose (data ! i), img_extent = extent, clim = limits \<rparr>))"

text \<open>
  The part of \<^verbatim>\<open>__call__\<close> after the interpolation: the five differences, the list
  \<^verbatim>\<open>data\<close> and the loop over the fifteen axes. Unpacking the interpolated list into ten
  names raises ValueError when it does not hold ten arrays.
\<close>

definition plot :: "extent \<Rightarrow> vgrid list \<Rightarrow> error + (figure \<times> string) list" where
  "plot extent ivs =
     (case ivs of
        [p_true, u_true, v_true, nu_true, c_true, p_pred, u_pred, v_pred, nu_pred, c_pred] \<Rightarrow>
          (let p_diff = np_sub p_true p_pred;
               u_diff = np_sub u_true u_pred;
               v_diff = np_sub v_true v_pred;
               nu_diff = np_sub nu_true nu_pred;
               c_diff = np_sub c_true c_pred;
               data = [p_pred, p_true, p_diff, u_pred, u_true, u_diff,
                       v_pred, v_true, v_diff, nu_pred, nu_true, nu_diff,
                       c_pred, c_true, c_diff]
           in thenE (comprehension (draw extent data) [0..<15])
                (\<lambda>ps. Inr [(\<lparr> suptitle = ''Heat sink 2D: PINN vs True Solution'',
                               panels = ps \<rparr>, ''custom_plot'')]))
      | _ \<Rightarrow> Inl ValueError)"

text \<open>\<^verbatim>\<open>CustomValidatorPlotter.__call__(self, invar, true_outvar, pred_outvar)\<close>\<close>

definition call ::
  "interpolant \<Rightarrow> (string \<rightharpoonup> real list) \<Rightarrow> (string \<rightharpoonup> field) \<Rightarrow> (string \<rightharpoonup> field)
     \<Rightarrow> error + (figure \<times> string) list" where
  "call lin invar true_outvar pred_outvar =
     thenE (getitem invar ''x'') (\<lambda>x.
     thenE (getitem invar ''y'') (\<lambda>y.
     thenE (np_min x) (\<lambda>x_min.
     thenE (np_max x) (\<lambda>x_max.
     thenE (np_min y) (\<lambda>y_min.
     thenE (np_max y) (\<lambda>y_max.
     (let extent = (x_min, x_max, y_min, y_max) in
     thenE (getitem true_outvar ''p'') (\<lambda>p_true.
     thenE (getitem true_outvar ''u'') (\<lambda>u_true.
     thenE (getitem true_outvar ''v'') (\<lambda>v_true.
     thenE (getitem true_outvar ''nu'') (\<lambda>nu_true.
     thenE (getitem true_outvar ''c'') (\<lambda>c_true0.
     (let c_true = np_scale c_true0 (double 273.15) in
     thenE (getitem pred_outvar ''p'') (\<lambda>p_pred.
     thenE (getitem pred_outvar ''u'') (\<lambda>u_pred.
     thenE (getitem pred_outvar ''v'') (\<lambda>v_pred.
     thenE (getitem pred_outvar ''nu'') (\<lambda>nu_pred.
     thenE (getitem pred_outvar ''c'') (\<lambda>c_pred0.
     (let c_pred = np_scale c_pred0 (double 273.15) in
     thenE (interpolate_output lin x y
              [p_true, u_true, v_true, nu_true, c_true,
               p_pred, u_pred, v_pred, nu_pred, c_pred] extent)
       (plot extent))))))))))))))))))))"

section \<open>A small validation set\<close>

text \<open>
  Concrete inputs on which the model is run: four sample points at the corners of the unit
  square, every reference field constantly \<open>1\<close> and every predicted field constantly
  \<open>0\<close>. \<open>flat\<close> holds of a coordinate list whose entries are all equal.
  \<open>const_lin\<close> is an interpolant for constant fields: it rejects sample points that
  lie on one vertical or one horizontal line, and an empty field, and otherwise returns
  the constant function of the first value. On a constant field over the unit square it
  is the piecewise linear interpolant.
\<close>

definition flat :: "real list \<Rightarrow> bool" where
  "flat xs = (\<forall>a\<in>set xs. a = hd xs)"

definition const_lin :: interpolant where
  "const_lin x y value =
     (if flat x \<or> flat y then Inl QhullError
      else case value of [] \<Rightarrow> Inl ValueError | v # _ \<Rightarrow> Inr (\<lambda>_ _. v))"

definition ex_x :: "real list" where
  "ex_x = [0, 1, 0, 1]"

definition ex_y :: "real list" where
  "ex_y = [0, 0, 1, 1]"

definition ex_invar :: "string \<rightharpoonup> real list" where
  "ex_invar = [''x'' \<mapsto> ex_x, ''y'' \<mapsto> ex_y]"

definition ones :: field where
  "ones = [Finite 1, Finite 1, Finite 1, Finite 1]"

definition zeros :: field where
  "zeros = [Finite 0, Finite 0, Finite 0, Finite 0]"

definition ex_true :: "string \<rightharpoonup> field" where
  "ex_true = [''p'' \<mapsto> ones, ''u'' \<mapsto> ones, ''v'' \<mapsto> ones, ''nu'' \<mapsto> ones, ''c'' \<mapsto> ones]"

definition ex_pred :: "string \<rightharpoonup> field" where
  "ex_pred = [''p'' \<mapsto> zeros, ''u'' \<mapsto> zeros, ''v'' \<mapsto> zeros, ''nu'' \<mapsto> zeros, ''c'' \<mapsto> zeros]"

text \<open>The figure that the call returns on these inputs.\<close>

definition ex_fig :: figure where
  "ex_fig = fst (hd (projr (call const_lin ex_invar ex_true ex_pred)))"





section \<open>Arrays as objects\<close>

text \<open>
  The model above passes arrays by value. To speak about mutation the same program is
  written once more over a store of array objects: a mapping of the call sends a name to
  the address of its array, \<^verbatim>\<open>a[:, 0]\<close> is a view and keeps the address, every numpy
  operation that returns a new array allocates one, and \<^verbatim>\<open>mask |= ...\<close> and
  \<^verbatim>\<open>a[mask] = np.nan\<close> overwrite the object at the address they are given.
  Reading an object of another kind than the operation needs is a TypeError. The library
  calls \<^verbatim>\<open>griddata\<close>, \<^verbatim>\<open>nan_to_num\<close> (with its default \<^verbatim>\<open>copy=True\<close>) and
  \<^verbatim>\<open>imshow\<close> read their arguments and return new objects; scalar results and the
  temporaries of an expression are values, not objects.
\<close>

type_synonym addr = nat

datatype ndarray = Coords "real list" | Field field | RGrid grid | VGrid vgrid | BGrid mask

record store =
  mem :: "addr \<rightharpoonup> ndarray"
  lim :: addr

text \<open>
  A step takes the store and returns a value or an error, and the store it leaves; an
  error leaves the store as it is at the raise.
\<close>

type_synonym 'a step = "store \<Rightarrow> (error + 'a) \<times> store"

definition returnS :: "'a \<Rightarrow> 'a step" where
  "returnS a = (\<lambda>s. (Inr a, s))"

definition liftE :: "error + 'a \<Rightarrow> 'a step" where
  "liftE r = (\<lambda>s. (r, s))"

definition thenS :: "'a step \<Rightarrow> ('a \<Rightarrow> 'b step) \<Rightarrow> 'b step" where
  "thenS m f = (\<lambda>s. case m s of (Inl e, s') \<Rightarrow> (Inl e, s') | (Inr a, s') \<Rightarrow> f a s')"

fun mapS :: "('a \<Rightarrow> 'b step) \<Rightarrow> 'a list \<Rightarrow> 'b list step" where
  "mapS f [] = returnS []"
| "mapS f (a # as) = thenS (f a) (\<lambda>b. thenS (mapS f as) (\<lambda>bs. returnS (b # bs)))"

fun forS :: "('a \<Rightarrow> unit step) \<Rightarrow> 'a list \<Rightarrow> unit step" where
  "forS f [] = returnS ()"
| "forS f (a # as) = thenS (f a) (\<lambda>_. forS f as)"

text \<open>A new object, at the next free address.\<close>

definition new_array :: "ndarray \<Rightarrow> addr step" where
  "new_array v = (\<lambda>s. (Inr (lim s), s\<lparr>mem := (mem s)(lim s \<mapsto> v), lim := Suc (lim s)\<rparr>))"

text \<open>Overwriting the object at an address, in place.\<close>

definition put :: "addr \<Rightarrow> ndarray \<Rightarrow> unit step" where
  "put a v = (\<lambda>s. (Inr (), s\<lparr>mem := (mem s)(a \<mapsto> v)\<rparr>))"

definition get_coords :: "addr \<Rightarrow> real list step" where
  "get_coords a = (\<lambda>s. case mem s a of Some (Coords xs) \<Rightarrow> (Inr xs, s) | _ \<Rightarrow> (Inl TypeError, s))"

definition get_field :: "addr \<Rightarrow> field step" where
  "get_field a = (\<lambda>s. case mem s a of Some (Field v) \<Rightarrow> (Inr v, s) | _ \<Rightarrow> (Inl TypeError, s))"

definition get_rgrid :: "addr \<Rightarrow> grid step" where
  "get_rgrid a = (\<lambda>s. case mem s a of Some (RGrid g) \<Rightarrow> (Inr g, s) | _ \<Rightarrow> (Inl TypeError, s))"

definition get_vgrid :: "addr \<Rightarrow> vgrid step" where
  "get_vgrid a = (\<lambda>s. case mem s a of Some (VGrid g) \<Rightarrow> (Inr g, s) | _ \<Rightarrow> (Inl TypeError, s))"

definition get_mask :: "addr \<Rightarrow> mask step" where
  "get_mask a = (\<lambda>s. case mem s a of Some (BGrid m) \<Rightarrow> (Inr m, s) | _ \<Rightarrow> (Inl TypeError, s))"

subsection \<open>\<^verbatim>\<open>heat_sink_mask\<close> over the store\<close>

text \<open>One pass of the loop: \<^verbatim>\<open>mask |= ...\<close> overwrites the mask object.\<close>

definition fin_pass_st :: "addr \<Rightarrow> addr \<Rightarrow> addr \<Rightarrow> int \<Rightarrow> unit step" where
  "fin_pass_st xi yi mask_a j =
     thenS (get_rgrid xi) (\<lambda>gx.
     thenS (get_rgrid yi) (\<lambda>gy.
     thenS (get_mask mask_a) (\<lambda>m.
     put mask_a (BGrid (fin_pass hard_coded gx gy m j)))))"

definition heat_sink_mask_st :: "addr \<Rightarrow> addr \<Rightarrow> addr step" where
  "heat_sink_mask_st xi yi =
     thenS (get_rgrid xi) (\<lambda>gx.
     thenS (new_array (BGrid (zeros_like gx))) (\<lambda>mask.
     thenS (forS (fin_pass_st xi yi mask) (py_range (nr_fins hard_coded))) (\<lambda>_.
     returnS mask)))"

subsection \<open>\<^verbatim>\<open>interpolate_output\<close> over the store\<close>

definition griddata_st :: "interpolant \<Rightarrow> addr \<Rightarrow> addr \<Rightarrow> addr \<Rightarrow> addr \<Rightarrow> addr \<Rightarrow> addr step" where
  "griddata_st lin x y value xi yi =
     thenS (get_coords x) (\<lambda>cx.
     thenS (get_coords y) (\<lambda>cy.
     thenS (get_field value) (\<lambda>v.
     thenS (get_rgrid xi) (\<lambda>gx.
     thenS (get_rgrid yi) (\<lambda>gy.
     thenS (liftE (griddata lin cx cy v gx gy)) (\<lambda>g.
     new_array (VGrid g)))))))"

definition nan_to_num_st :: "addr \<Rightarrow> addr step" where
  "nan_to_num_st val = thenS (get_vgrid val) (\<lambda>g. new_array (VGrid (nan_to_num g)))"

text \<open>\<^verbatim>\<open>a[mask] = np.nan\<close> overwrites the object \<open>a\<close>.\<close>

definition set_masked_st :: "addr \<Rightarrow> addr \<Rightarrow> unit step" where
  "set_masked_st a mask_a =
     thenS (get_vgrid a) (\<lambda>g.
     thenS (get_mask mask_a) (\<lambda>m.
     thenS (liftE (set_masked g m)) (\<lambda>g'.
     put a (VGrid g'))))"

definition interpolate_output_st ::
  "interpolant \<Rightarrow> addr \<Rightarrow> addr \<Rightarrow> addr list \<Rightarrow> extent \<Rightarrow> addr list step" where
  "interpolate_output_st lin x y values extent =
     thenS (new_array (RGrid (fst (mesh extent)))) (\<lambda>xi.
     thenS (new_array (RGrid (snd (mesh extent)))) (\<lambda>yi.
     thenS (heat_sink_mask_st xi yi) (\<lambda>mask.
     thenS (mapS (\<lambda>value. griddata_st lin x y value xi yi) values) (\<lambda>interpolated_values0.
     thenS (mapS nan_to_num_st interpolated_values0) (\<lambda>interpolated_values.
     thenS (forS (\<lambda>i. set_masked_st (interpolated_values ! i) mask)
              [0..<length interpolated_values]) (\<lambda>_.
     returnS interpolated_values))))))"

subsection \<open>\<^verbatim>\<open>__call__\<close> over the store\<close>

definition scale_st :: "addr \<Rightarrow> real \<Rightarrow> addr step" where
  "scale_st a c = thenS (get_field a) (\<lambda>v. new_array (Field (np_scale v c)))"

definition sub_st :: "addr \<Rightarrow> addr \<Rightarrow> addr step" where
  "sub_st a b =
     thenS (get_vgrid a) (\<lambda>ga.
     thenS (get_vgrid b) (\<lambda>gb.
     new_array (VGrid (np_sub ga gb))))"

definition draw_st :: "extent \<Rightarrow> addr list \<Rightarrow> nat \<Rightarrow> panel step" where
  "draw_st extent data i =
     (let var = variables ! i in
      thenS (liftE (if var \<noteq> ''None''
                    then thenE (getitem colorbar_limits var) (\<lambda>l. Inr (Some l))
                    else Inr None)) (\<lambda>limits.
      thenS (get_vgrid (data ! i)) (\<lambda>g.
      returnS \<lparr> title = titles ! i, xlabel = ''x'', ylabel = ''y'',
                image = transpose g, img_extent = extent, clim = limits \<rparr>)))"

definition plot_st :: "extent \<Rightarrow> addr list \<Rightarrow> (figure \<times> string) list step" where
  "plot_st extent ivs =
     (case ivs of
        [p_true, u_true, v_true, nu_true, c_true, p_pred, u_pred, v_pred, nu_pred, c_pred] \<Rightarrow>
          thenS (sub_st p_true p_pred) (\<lambda>p_diff.
          thenS (sub_st u_true u_pred) (\<lambda>u_diff.
          thenS (sub_st v_true v_pred) (\<lambda>v_diff.
          thenS (sub_st nu_true nu_pred) (\<lambda>nu_diff.
          thenS (sub_st c_true c_pred) (\<lambda>c_diff.
          (let data = [p_pred, p_true, p_diff, u_pred, u_true, u_diff,
                       v_pred, v_true, v_diff, nu_pred, nu_true, nu_diff,
                       c_pred, c_true, c_diff]
           in thenS (mapS (draw_st extent data) [0..<15]) (\<lambda>ps.
              returnS [(\<lparr> suptitle = ''Heat sink 2D: PINN vs True Solution'',
                           panels = ps \<rparr>, ''custom_plot'')])))))))
      | _ \<Rightarrow> liftE (Inl ValueError))"

definition call_st ::
  "interpolant \<Rightarrow> (string \<rightharpoonup> addr) \<Rightarrow> (string \<rightharpoonup> addr) \<Rightarrow> (string \<rightharpoonup> addr)
     \<Rightarrow> (figure \<times> string) list step" where
  "call_st lin invar true_outvar pred_outvar =
     thenS (liftE (getitem invar ''x'')) (\<lambda>x.
     thenS (liftE (getitem invar ''y'')) (\<lambda>y.
     thenS (get_coords x) (\<lambda>cx.
     thenS (liftE (np_min cx)) (\<lambda>x_min.
     thenS (liftE (np_max cx)) (\<lambda>x_max.
     thenS (get_coords y) (\<lambda>cy.
     thenS (liftE (np_min cy)) (\<lambda>y_min.
     thenS (liftE (np_max cy)) (\<lambda>y_max.
     (let extent = (x_min, x_max, y_min, y_max) in
     thenS (liftE (getitem true_outvar ''p'')) (\<lambda>p_true.
     thenS (liftE (getitem true_outvar ''u'')) (\<lambda>u_true.
     thenS (liftE (getitem true_outvar ''v'')) (\<lambda>v_true.
     thenS (liftE (getitem true_outvar ''nu'')) (\<lambda>nu_true.
     thenS (liftE (getitem true_outvar ''c'')) (\<lambda>c_true0.
     thenS (scale_st c_true0 (double 273.15)) (\<lambda>c_true.
     thenS (liftE (getitem pred_outvar ''p'')) (\<lambda>p_pred.
     thenS (liftE (getitem pred_outvar ''u'')) (\<lambda>u_pred.
     thenS (liftE (getitem pred_outvar ''v'')) (\<lambda>v_pred.
     thenS (liftE (getitem pred_outvar ''nu'')) (\<lambda>nu_pred.
     thenS (liftE (getitem pred_outvar ''c'')) (\<lambda>c_pred0.
     thenS (scale_st c_pred0 (double 273.15)) (\<lambda>c_pred.
     thenS (interpolate_output_st lin x y
              [p_true, u_true, v_true, nu_true, c_true,
               p_pred, u_pred, v_pred, nu_pred, c_pred] extent)
       (plot_st extent))))))))))))))))))))))"

text \<open>
  What a mapping of addresses holds in a store, as the by-value model sees it, and the
  condition on the inputs of a call: every address of the three mappings is allocated and
  holds an array of the right kind.
\<close>

definition coords_in :: "store \<Rightarrow> (string \<rightharpoonup> addr) \<Rightarrow> (string \<rightharpoonup> real list)" where
  "coords_in s d =
     (\<lambda>k. case d k of None \<Rightarrow> None
          | Some a \<Rightarrow> (case mem s a of Some (Coords xs) \<Rightarrow> Some xs | _ \<Rightarrow> None))"

definition fields_in :: "store \<Rightarrow> (string \<rightharpoonup> addr) \<Rightarrow> (string \<rightharpoonup> field)" where
  "fields_in s d =
     (\<lambda>k. case d k of None \<Rightarrow> None
          | Some a \<Rightarrow> (case mem s a of Some (Field v) \<Rightarrow> Some v | _ \<Rightarrow> None))"

definition inputs_ok ::
  "store \<Rightarrow> (string \<rightharpoonup> addr) \<Rightarrow> (string \<rightharpoonup> addr) \<Rightarrow> (string \<rightharpoonup> addr) \<Rightarrow> bool" where
  "inputs_ok s invar true_outvar pred_outvar \<longleftrightarrow>
     (\<forall>k a. invar k = Some a \<longrightarrow> a < lim s \<and> (\<exists>xs. mem s a = Some (Coords xs))) \<and>
     (\<forall>k a. true_outvar k = Some a \<longrightarrow> a < lim s \<and> (\<exists>v. mem s a = Some (Field v))) \<and>
     (\<forall>k a. pred_outvar k = Some a \<longrightarrow> a < lim s \<and> (\<exists>v. mem s a = Some (Field v)))"

text \<open>
  The validation set above as a store: twelve arrays at the addresses \<open>0\<close> to \<open>11\<close>.
\<close>

definition ex_store :: store where
  "ex_store =
     \<lparr> mem = [0 \<mapsto> Coords ex_x, 1 \<mapsto> Coords ex_y,
              2 \<mapsto> Field ones, 3 \<mapsto> Field ones, 4 \<mapsto> Field ones, 5 \<mapsto> Field ones,
              6 \<mapsto> Field ones,
              7 \<mapsto> Field zeros, 8 \<mapsto> Field zeros, 9 \<mapsto> Field zeros, 10 \<mapsto> Field zeros,
              11 \<mapsto> Field zeros],
       lim = 12 \<rparr>"

definition ex_invar_st :: "string \<rightharpoonup> addr" where
  "ex_invar_st = [''x'' \<mapsto> 0, ''y'' \<mapsto> 1]"

definition ex_true_st :: "string \<rightharpoonup> addr" where
  "ex_true_st = [''p'' \<mapsto> 2, ''u'' \<mapsto> 3, ''v'' \<mapsto> 4, ''nu'' \<mapsto> 5, ''c'' \<mapsto> 6]"

definition ex_pred_st :: "string \<rightharpoonup> addr" where
  "ex_pred_st = [''p'' \<mapsto> 7, ''u'' \<mapsto> 8, ''v'' \<mapsto> 9, ''nu'' \<mapsto> 10, ''c'' \<mapsto> 11]"

text \<open>
  \<open>keeps n Q f\<close>: run from a store whose objects below the address \<open>n\<close> all exist
  already, the step \<open>f\<close> leaves every object below \<open>n\<close> as it is, frees no address,
  and a value it returns satisfies \<open>Q\<close>.
\<close>

definition keeps :: "addr \<Rightarrow> ('a \<Rightarrow> bool) \<Rightarrow> 'a step \<Rightarrow> bool" where
  "keeps n Q f \<longleftrightarrow>
     (\<forall>s. n \<le> lim s \<longrightarrow>
        (case f s of (r, s') \<Rightarrow>
           lim s \<le> lim s' \<and> (\<forall>a<n. mem s' a = mem s a) \<and> (\<forall>v. r = Inr v \<longrightarrow> Q v)))"

section \<open>Properties of rounding\<close>

text \<open>
  \<open>double_eval\<close> and \<open>fl_eval\<close> compute a rounding: for \<open>r\<close> with
  \<open>2 ^ 52 \<le> \<bar>r\<bar> * 2 ^ k < 2 ^ 53\<close> the doubles around \<open>r\<close> are the multiples of
  \<open>1 / 2 ^ k\<close>. The lemmas after them give the constants of the source and the bounds
  of the three fins as the floats they are.
\<close>

lemma rne_bounds: "\<lfloor>x\<rfloor> \<le> rne x \<and> rne x \<le> \<lfloor>x\<rfloor> + 1"
  by (simp add: rne_def Let_def)

lemma rne_of_int: "rne (of_int m) = m"
  by (simp add: rne_def)

lemma double_eval:
  assumes "2 ^ 52 \<le> \<bar>r\<bar> * 2 ^ k" "\<bar>r\<bar> * 2 ^ k < 2 ^ 53" "k \<le> 1074"
    and "rne (r * 2 ^ k) = m"
  shows "double r = of_int m / 2 ^ k"
proof -
  from assms(1) have r0: "r \<noteq> 0" by auto
  then have pos: "0 < \<bar>r\<bar>" by simp
  have p: "2 powr of_int (52 - int k) = (2::real) ^ 52 / 2 ^ k"
    by (simp add: powr_diff powr_realpow)
  have q: "2 powr (of_int (52 - int k) + 1) = (2::real) ^ 53 / 2 ^ k"
    by (simp add: powr_diff powr_add powr_realpow)
  have "2 powr of_int (52 - int k) \<le> \<bar>r\<bar> \<and> \<bar>r\<bar> < 2 powr (of_int (52 - int k) + 1)"
    unfolding p q using assms(1,2) by (simp add: field_simps)
  then have fl: "\<lfloor>log 2 \<bar>r\<bar>\<rfloor> = 52 - int k"
    using floor_log_eq_powr_iff [of "\<bar>r\<bar>" 2 "52 - int k"] pos by simp
  have e: "max (\<lfloor>log 2 \<bar>r\<bar>\<rfloor> - 52) (- 1074) = - int k"
    unfolding fl using assms(3) by simp
  have s: "2 powr - real k = 1 / (2::real) ^ k"
    by (simp add: powr_minus powr_realpow divide_simps)
  show ?thesis
    unfolding double_def e using r0 assms(4) by (simp add: Let_def s)
qed

lemma float_max_ge: "2 ^ 53 \<le> float_max"
  by (simp add: float_max_def)

lemma fl_eval:
  assumes "2 ^ 52 \<le> \<bar>r\<bar> * 2 ^ k" "\<bar>r\<bar> * 2 ^ k < 2 ^ 53" "k \<le> 1074"
    and "rne (r * 2 ^ k) = m"
  shows "fl r = Finite (of_int m / 2 ^ k)"
proof -
  have d: "double r = of_int m / 2 ^ k"
    using assms by (rule double_eval)
  from assms(2) have "\<bar>r * 2 ^ k\<bar> < 2 ^ 53"
    by (simp add: abs_mult)
  then have u: "r * 2 ^ k < 2 ^ 53" and l: "- (2 ^ 53) < r * 2 ^ k"
    by linarith+
  define n where "n = \<lfloor>r * 2 ^ k\<rfloor>"
  from u have nu: "n < 2 ^ 53"
    unfolding n_def by (simp add: floor_less_iff)
  from l have nl: "- (2 ^ 53) \<le> n"
    unfolding n_def by (simp add: le_floor_iff)
  from rne_bounds [of "r * 2 ^ k"] assms(4) have b: "n \<le> m" "m \<le> n + 1"
    unfolding n_def by simp_all
  from b nu have mu: "m \<le> 2 ^ 53" by simp
  from b nl have ml: "- (2 ^ 53) \<le> m" by simp
  from mu ml have a: "\<bar>real_of_int m\<bar> \<le> 2 ^ 53"
    by (simp add: abs_le_iff)
  have "\<bar>real_of_int m\<bar> * 1 \<le> \<bar>real_of_int m\<bar> * 2 ^ k"
    by (rule mult_left_mono) simp_all
  then have "\<bar>real_of_int m\<bar> / 2 ^ k \<le> \<bar>real_of_int m\<bar>"
    by (simp add: divide_le_eq)
  with a have "\<bar>real_of_int m / 2 ^ k\<bar> \<le> 2 ^ 53"
    by (simp add: abs_divide)
  with float_max_ge have "\<bar>real_of_int m / 2 ^ k\<bar> \<le> float_max" by simp
  then have "\<not> float_max < real_of_int m / 2 ^ k"
    and "\<not> real_of_int m / 2 ^ k < - float_max"
    by linarith+
  then show ?thesis
    unfolding fl_def d Let_def by (simp only: if_False)
qed

lemma fl_0: "fl 0 = Finite 0"
  by (simp add: fl_def double_def Let_def float_max_def)

lemma fl_1: "fl 1 = Finite 1"
  using fl_eval [of 1 52 "2 ^ 52"] rne_of_int [of "2 ^ 52"] by simp

lemma fl_2: "fl 2 = Finite 2"
  using fl_eval [of 2 51 "2 ^ 52"] rne_of_int [of "2 ^ 52"] by simp


lemma double_eval_up:
  assumes "2 ^ 52 \<le> \<bar>r\<bar> / 2 ^ k" "\<bar>r\<bar> / 2 ^ k < 2 ^ 53"
    and "rne (r / 2 ^ k) = m"
  shows "double r = of_int m * 2 ^ k"
proof -
  from assms(1) have r0: "r \<noteq> 0" by auto
  then have pos: "0 < \<bar>r\<bar>" by simp
  have p: "2 powr of_int (52 + int k) = (2::real) ^ 52 * 2 ^ k"
    by (simp add: powr_add powr_realpow)
  have q: "2 powr (of_int (52 + int k) + 1) = (2::real) ^ 53 * 2 ^ k"
    by (simp add: powr_add powr_realpow)
  have "2 powr of_int (52 + int k) \<le> \<bar>r\<bar> \<and> \<bar>r\<bar> < 2 powr (of_int (52 + int k) + 1)"
    unfolding p q using assms(1,2) by (simp add: field_simps)
  then have fl: "\<lfloor>log 2 \<bar>r\<bar>\<rfloor> = 52 + int k"
    using floor_log_eq_powr_iff [of "\<bar>r\<bar>" 2 "52 + int k"] pos by simp
  have e: "max (\<lfloor>log 2 \<bar>r\<bar>\<rfloor> - 52) (- 1074) = int k"
    unfolding fl by simp
  have s: "2 powr real k = (2::real) ^ k"
    by (simp add: powr_realpow)
  show ?thesis
    unfolding double_def e using r0 assms(3) by (simp add: Let_def s)
qed

text \<open>
  The difference of the largest and the most negative finite float overflows:
  \<^verbatim>\<open>sys.float_info.max - (-sys.float_info.max)\<close> is \<^verbatim>\<open>inf\<close>.
\<close>

lemma vsub_overflow: "vsub (Finite float_max) (Finite (- float_max)) = PosInf"
proof -
  have "double (2 ^ 1025 - 2 ^ 972) = 2 ^ 1025 - 2 ^ 972"
    using double_eval_up [of "2 ^ 1025 - 2 ^ 972" 972 "2 ^ 53 - 1"] rne_of_int [of "2 ^ 53 - 1"]
    by simp
  then show ?thesis
    by (simp add: fl_def float_max_def Let_def)
qed

lemma d_m03: "double (- 0.3) = - (5404319552844595 / 2 ^ 54)"
  using double_eval [of "- 0.3" 54 "- 5404319552844595"] by (simp add: rne_def)

lemma d_01: "double 0.1 = 3602879701896397 / 2 ^ 55"
  using double_eval [of "0.1" 56 "7205759403792794"] by (simp add: rne_def)

lemma d_015: "double 0.15 = 5404319552844595 / 2 ^ 55"
  using double_eval [of "0.15" 55 "5404319552844595"] by (simp add: rne_def)

lemma d_1: "double 1.0 = 1"
  using double_eval [of 1 52 "2 ^ 52"] rne_of_int [of "2 ^ 52"] by simp

lemma fl_quarter: "fl (1 / 4) = Finite (1 / 4)"
  using fl_eval [of "1 / 4" 54 "2 ^ 52"] rne_of_int [of "2 ^ 52"] by simp

lemma fl_half: "fl (1 / 2) = Finite (1 / 2)"
  using fl_eval [of "1 / 2" 53 "2 ^ 52"] rne_of_int [of "2 ^ 52"] by simp

lemma fl_gap: "fl (5404319552844595 / 2 ^ 55 + 3602879701896397 / 2 ^ 55) = Finite (1 / 4)"
  using fl_quarter by simp

lemma hc_fields:
  "heat_sink_x hard_coded = Finite (- 1)"
  "heat_sink_y_start hard_coded = Finite (- (5404319552844595 / 2 ^ 54))"
  "fin_thickness hard_coded = Finite (3602879701896397 / 2 ^ 55)"
  "nr_fins hard_coded = 3"
  "gap hard_coded = Finite (1 / 4)"
  "length_hs hard_coded = Finite 1"
  unfolding hard_coded_def d_m03 d_01 d_015 d_1
  by (simp_all only: fin_spec.select_convs vadd.simps fl_gap)

lemma hc_x_upper: "vadd (heat_sink_x hard_coded) (length_hs hard_coded) = Finite 0"
  unfolding hc_fields using fl_0 by simp

lemma float_of_int_012:
  "float_of_int 0 = Finite 0" "float_of_int 1 = Finite 1" "float_of_int 2 = Finite 2"
  using fl_0 fl_1 fl_2 by (simp_all add: float_of_int_def)

lemma gap_times:
  "vmul (Finite 0) (Finite (1 / 4)) = Finite 0"
  "vmul (Finite 1) (Finite (1 / 4)) = Finite (1 / 4)"
  "vmul (Finite 2) (Finite (1 / 4)) = Finite (1 / 2)"
  using fl_0 fl_quarter fl_half by simp_all

lemma fl_y0:
  "fl (- (5404319552844595 / 2 ^ 54) + 0) = Finite (- (5404319552844595 / 2 ^ 54))"
  using fl_eval [of "- (5404319552844595 / 2 ^ 54)" 54 "- 5404319552844595"]
    rne_of_int [of "- 5404319552844595"] by simp

lemma fl_y1:
  "fl (- (5404319552844595 / 2 ^ 54) + 1 / 4) = Finite (- (900719925474099 / 2 ^ 54))"
  using fl_eval [of "- (900719925474099 / 2 ^ 54)" 57 "- 7205759403792792"]
    rne_of_int [of "- 7205759403792792"] by simp

lemma fl_y2:
  "fl (- (5404319552844595 / 2 ^ 54) + 1 / 2) = Finite (3602879701896397 / 2 ^ 54)"
  using fl_eval [of "3602879701896397 / 2 ^ 54" 55 "7205759403792794"]
    rne_of_int [of "7205759403792794"] by simp

lemma fl_u0:
  "fl (- (5404319552844595 / 2 ^ 54) + 3602879701896397 / 2 ^ 55)
     = Finite (- (7205759403792793 / 2 ^ 55))"
  using fl_eval [of "- (7205759403792793 / 2 ^ 55)" 55 "- 7205759403792793"]
    rne_of_int [of "- 7205759403792793"] by simp

lemma fl_u1:
  "fl (- (900719925474099 / 2 ^ 54) + 3602879701896397 / 2 ^ 55)
     = Finite (3602879701896398 / 2 ^ 56)"
  using fl_eval [of "3602879701896398 / 2 ^ 56" 57 "7205759403792796"]
    rne_of_int [of "7205759403792796"] by simp

lemma fl_u2:
  "fl (3602879701896397 / 2 ^ 54 + 3602879701896397 / 2 ^ 55)
     = Finite (5404319552844596 / 2 ^ 54)"
  using fl_eval [of "10808639105689191 / 2 ^ 55" 54 "5404319552844596"]
  by (simp add: rne_def)

lemma fin_y_hc:
  "fin_y hard_coded 0 = Finite (- (5404319552844595 / 2 ^ 54))"
  "fin_y hard_coded 1 = Finite (- (900719925474099 / 2 ^ 54))"
  "fin_y hard_coded 2 = Finite (3602879701896397 / 2 ^ 54)"
  unfolding fin_y_def hc_fields float_of_int_012 gap_times
  by (simp_all only: vadd.simps fl_y0 fl_y1 fl_y2)

lemma upper_hc:
  "vadd (fin_y hard_coded 0) (fin_thickness hard_coded) = Finite (- (7205759403792793 / 2 ^ 55))"
  "vadd (fin_y hard_coded 1) (fin_thickness hard_coded) = Finite (3602879701896398 / 2 ^ 56)"
  "vadd (fin_y hard_coded 2) (fin_thickness hard_coded) = Finite (5404319552844596 / 2 ^ 54)"
  unfolding fin_y_hc hc_fields
  by (simp_all only: vadd.simps fl_u0 fl_u1 fl_u2)

section \<open>Properties of the elementwise operations\<close>

lemma shape_zeros_like: "shape (zeros_like a) = shape a"
  by (simp add: shape_def zeros_like_def)

lemma shape_np_ge: "shape (np_ge a c) = shape a"
  by (simp add: shape_def np_ge_def)

lemma shape_np_le: "shape (np_le a c) = shape a"
  by (simp add: shape_def np_le_def)

lemma shape_map2:
  "shape a = shape b \<Longrightarrow> shape (map2 (map2 f) a b) = shape a"
proof (induction a arbitrary: b)
  case Nil
  then show ?case by (simp add: shape_def)
next
  case (Cons r a)
  then obtain s b' where b: "b = s # b'" by (cases b) (auto simp: shape_def)
  with Cons.prems have "length r = length s" "shape a = shape b'"
    by (auto simp: shape_def)
  with Cons.IH [of b'] b show ?case by (simp add: shape_def)
qed

lemma shape_np_and: "shape a = shape b \<Longrightarrow> shape (np_and a b) = shape a"
  unfolding np_and_def by (rule shape_map2)

lemma shape_np_or: "shape a = shape b \<Longrightarrow> shape (np_or a b) = shape a"
  unfolding np_or_def by (rule shape_map2)

lemma shape_length: "shape a = shape b \<Longrightarrow> length a = length b"
  unfolding shape_def by (rule map_eq_imp_length_eq)

lemma shape_row:
  "shape a = shape b \<Longrightarrow> i < length a \<Longrightarrow> length (a ! i) = length (b ! i)"
proof -
  assume s: "shape a = shape b" and i: "i < length a"
  from s have l: "length a = length b" by (rule shape_length)
  from s have "map length a ! i = map length b ! i" by (simp add: shape_def)
  with i l show ?thesis by simp
qed

lemma shape_in_range:
  assumes "shape b = shape a" "i < length a" "j < length (a ! i)"
  shows "i < length b \<and> j < length (b ! i)"
proof -
  from assms(1) have l: "length b = length a" by (rule shape_length)
  with assms(2) have i: "i < length b" by simp
  from shape_row [OF assms(1) i] assms(3) i show ?thesis by simp
qed

lemma nth_map2_2:
  assumes "shape a = shape b" "i < length a" "j < length (a ! i)"
  shows "map2 (map2 f) a b ! i ! j = f (a ! i ! j) (b ! i ! j)"
proof -
  from assms have l: "length a = length b" and r: "length (a ! i) = length (b ! i)"
    by (auto dest: shape_length shape_row)
  with assms(2,3) show ?thesis by simp
qed

lemma nth_np_and:
  "shape a = shape b \<Longrightarrow> i < length a \<Longrightarrow> j < length (a ! i) \<Longrightarrow>
     np_and a b ! i ! j = (a ! i ! j \<and> b ! i ! j)"
  unfolding np_and_def by (rule nth_map2_2)

lemma nth_np_or:
  "shape a = shape b \<Longrightarrow> i < length a \<Longrightarrow> j < length (a ! i) \<Longrightarrow>
     np_or a b ! i ! j = (a ! i ! j \<or> b ! i ! j)"
  unfolding np_or_def by (rule nth_map2_2)

lemma nth_np_ge:
  "i < length a \<Longrightarrow> j < length (a ! i) \<Longrightarrow> np_ge a c ! i ! j = vle c (Finite (a ! i ! j))"
  by (simp add: np_ge_def)

lemma nth_np_le:
  "i < length a \<Longrightarrow> j < length (a ! i) \<Longrightarrow> np_le a c ! i ! j = vle (Finite (a ! i ! j)) c"
  by (simp add: np_le_def)

lemma nth_zeros_like:
  "i < length a \<Longrightarrow> j < length (a ! i) \<Longrightarrow> zeros_like a ! i ! j = False"
  by (simp add: zeros_like_def)

section \<open>The mask, cell by cell\<close>

lemma shape_fin_pass:
  assumes "shape yi = shape xi" "shape m = shape xi"
  shows "shape (fin_pass fs xi yi m j) = shape xi"
  using assms
  by (simp add: fin_pass_def shape_np_or shape_np_and shape_np_ge shape_np_le)

lemma nth_fin_pass:
  assumes s: "shape yi = shape xi" "shape m = shape xi"
    and i: "i < length xi" and c: "c < length (xi ! i)"
  shows "fin_pass fs xi yi m j ! i ! c = (m ! i ! c \<or> in_fin fs j (xi ! i ! c) (yi ! i ! c))"
proof -
  let ?a = "np_ge xi (heat_sink_x fs)"
  let ?b = "np_le xi (vadd (heat_sink_x fs) (length_hs fs))"
  let ?c = "np_ge yi (fin_y fs j)"
  let ?d = "np_le yi (vadd (fin_y fs j) (fin_thickness fs))"
  have iy: "i < length yi" and cy: "c < length (yi ! i)"
    using shape_in_range [OF s(1) i c] by simp_all
  have im: "i < length m" and cm: "c < length (m ! i)"
    using shape_in_range [OF s(2) i c] by simp_all
  have sa: "shape ?a = shape xi" and sb: "shape ?b = shape xi"
    and sc: "shape ?c = shape xi" and sd: "shape ?d = shape xi"
    using s by (simp_all add: shape_np_ge shape_np_le)
  have sab: "shape (np_and ?a ?b) = shape xi"
    using sa sb by (simp add: shape_np_and)
  have sabc: "shape (np_and (np_and ?a ?b) ?c) = shape xi"
    using sab sc by (simp add: shape_np_and)
  have sall: "shape (np_and (np_and (np_and ?a ?b) ?c) ?d) = shape xi"
    using sabc sd by (simp add: shape_np_and)
  have ia: "i < length ?a" "c < length (?a ! i)"
    using i c by (simp_all add: np_ge_def)
  have ab: "np_and ?a ?b ! i ! c = (?a ! i ! c \<and> ?b ! i ! c)"
    using sa sb ia by (simp add: nth_np_and)
  have iab: "i < length (np_and ?a ?b)" "c < length (np_and ?a ?b ! i)"
    using shape_in_range [OF sab i c] by simp_all
  have abc: "np_and (np_and ?a ?b) ?c ! i ! c = (np_and ?a ?b ! i ! c \<and> ?c ! i ! c)"
    using sab sc iab by (simp add: nth_np_and)
  have iabc: "i < length (np_and (np_and ?a ?b) ?c)"
    "c < length (np_and (np_and ?a ?b) ?c ! i)"
    using shape_in_range [OF sabc i c] by simp_all
  have abcd: "np_and (np_and (np_and ?a ?b) ?c) ?d ! i ! c
      = (np_and (np_and ?a ?b) ?c ! i ! c \<and> ?d ! i ! c)"
    using sabc sd iabc by (simp add: nth_np_and)
  have "fin_pass fs xi yi m j ! i ! c
      = (m ! i ! c \<or> np_and (np_and (np_and ?a ?b) ?c) ?d ! i ! c)"
    using s sall im cm by (simp add: fin_pass_def nth_np_or)
  also have "\<dots> = (m ! i ! c \<or> in_fin fs j (xi ! i ! c) (yi ! i ! c))"
    using abcd abc ab i c iy cy
    by (simp add: nth_np_ge nth_np_le in_fin_def)
  finally show ?thesis .
qed

lemma shape_fins:
  assumes "shape yi = shape xi" "shape m = shape xi"
  shows "shape (foldl (fin_pass fs xi yi) m js) = shape xi"
  using assms(2)
proof (induction js arbitrary: m)
  case Nil
  then show ?case by simp
next
  case (Cons j js)
  from assms(1) Cons.prems have "shape (fin_pass fs xi yi m j) = shape xi"
    by (rule shape_fin_pass)
  then show ?case using Cons.IH by simp
qed

lemma nth_fins:
  assumes s: "shape yi = shape xi" and i: "i < length xi" and c: "c < length (xi ! i)"
  shows "shape m = shape xi \<Longrightarrow>
    foldl (fin_pass fs xi yi) m js ! i ! c
      = (m ! i ! c \<or> (\<exists>j\<in>set js. in_fin fs j (xi ! i ! c) (yi ! i ! c)))"
proof (induction js arbitrary: m)
  case Nil
  then show ?case by simp
next
  case (Cons j js)
  have sm: "shape (fin_pass fs xi yi m j) = shape xi"
    using s Cons.prems by (rule shape_fin_pass)
  have "fin_pass fs xi yi m j ! i ! c = (m ! i ! c \<or> in_fin fs j (xi ! i ! c) (yi ! i ! c))"
    using s Cons.prems i c by (rule nth_fin_pass)
  with Cons.IH [OF sm] show ?case by auto
qed

lemma set_py_range: "set (py_range n) = {j. 0 \<le> j \<and> j < n}"
proof -
  have "j \<in> set (py_range n) \<longleftrightarrow> 0 \<le> j \<and> j < n" for j
  proof
    assume "j \<in> set (py_range n)"
    then show "0 \<le> j \<and> j < n" by (auto simp: py_range_def)
  next
    assume a: "0 \<le> j \<and> j < n"
    then have "nat j < nat n" "int (nat j) = j" by auto
    then show "j \<in> set (py_range n)"
      unfolding py_range_def by (metis atLeast0LessThan imageI lessThan_iff set_map set_upt)
  qed
  then show ?thesis by auto
qed

lemma shape_heat_sink_mask_with:
  "shape yi = shape xi \<Longrightarrow> shape (heat_sink_mask_with fs xi yi) = shape xi"
  unfolding heat_sink_mask_with_def by (rule shape_fins) (simp_all add: shape_zeros_like)

lemma nth_heat_sink_mask_with:
  assumes "shape yi = shape xi" "i < length xi" "c < length (xi ! i)"
  shows "heat_sink_mask_with fs xi yi ! i ! c
    = (\<exists>j. 0 \<le> j \<and> j < nr_fins fs \<and> in_fin fs j (xi ! i ! c) (yi ! i ! c))"
proof -
  have "heat_sink_mask_with fs xi yi ! i ! c
    = (zeros_like xi ! i ! c \<or> (\<exists>j\<in>set (py_range (nr_fins fs)).
          in_fin fs j (xi ! i ! c) (yi ! i ! c)))"
    unfolding heat_sink_mask_with_def
    using assms by (intro nth_fins) (simp_all add: shape_zeros_like)
  then show ?thesis
    using assms(2,3) by (auto simp: nth_zeros_like set_py_range)
qed

section \<open>The three fins of the source\<close>

lemma fl_x_upper: "fl (- 1 + 1) = Finite 0"
  using fl_0 by simp

lemma in_fin_hc:
  "in_fin hard_coded 0 x y \<longleftrightarrow>
     - 1 \<le> x \<and> x \<le> 0 \<and> - (5404319552844595 / 2 ^ 54) \<le> y \<and> y \<le> - (7205759403792793 / 2 ^ 55)"
  "in_fin hard_coded 1 x y \<longleftrightarrow>
     - 1 \<le> x \<and> x \<le> 0 \<and> - (900719925474099 / 2 ^ 54) \<le> y \<and> y \<le> 3602879701896398 / 2 ^ 56"
  "in_fin hard_coded 2 x y \<longleftrightarrow>
     - 1 \<le> x \<and> x \<le> 0 \<and> 3602879701896397 / 2 ^ 54 \<le> y \<and> y \<le> 5404319552844596 / 2 ^ 54"
  unfolding in_fin_def fin_y_hc hc_fields
  by (simp_all only: vadd.simps vle.simps fl_u0 fl_u1 fl_u2 fl_x_upper)

lemma range_3: "{j::int. 0 \<le> j \<and> j < 3} = {0, 1, 2}"
  by auto

lemma nth_heat_sink_mask:
  assumes "shape yi = shape xi" "i < length xi" "c < length (xi ! i)"
  shows "heat_sink_mask xi yi ! i ! c
    = (in_fin hard_coded 0 (xi ! i ! c) (yi ! i ! c) \<or> in_fin hard_coded 1 (xi ! i ! c) (yi ! i ! c)
       \<or> in_fin hard_coded 2 (xi ! i ! c) (yi ! i ! c))"
proof -
  have "heat_sink_mask xi yi ! i ! c
      = (\<exists>j. j \<in> {j. 0 \<le> j \<and> j < 3} \<and> in_fin hard_coded j (xi ! i ! c) (yi ! i ! c))"
    unfolding heat_sink_mask_def
    using nth_heat_sink_mask_with [OF assms, of hard_coded]
    by (simp add: hc_fields)
  then show ?thesis unfolding range_3 by blast
qed

section \<open>Properties of the interpolation pipeline\<close>

lemma thenE_Inr [simp]: "thenE (Inr a) f = f a"
  by (simp add: thenE_def)

lemma thenE_Inl [simp]: "thenE (Inl e) f = Inl e"
  by (simp add: thenE_def)

lemma thenE_eq_Inr: "thenE m f = Inr b \<longleftrightarrow> (\<exists>a. m = Inr a \<and> f a = Inr b)"
  by (cases m) simp_all

lemma comprehension_Cons_Inr:
  "comprehension f (x # xs) = Inr ys \<longleftrightarrow>
     (\<exists>b bs. f x = Inr b \<and> comprehension f xs = Inr bs \<and> ys = b # bs)"
proof (cases "f x")
  case (Inl e)
  then show ?thesis by simp
next
  case (Inr b)
  then show ?thesis by (cases "comprehension f xs") auto
qed

lemma comprehension_Inr: "comprehension f xs = Inr ys \<longleftrightarrow> list_all2 (\<lambda>x y. f x = Inr y) xs ys"
proof (induction xs arbitrary: ys)
  case Nil
  then show ?case by auto
next
  case (Cons x xs)
  have "comprehension f (x # xs) = Inr ys \<longleftrightarrow>
     (\<exists>b bs. f x = Inr b \<and> list_all2 (\<lambda>x y. f x = Inr y) xs bs \<and> ys = b # bs)"
    unfolding comprehension_Cons_Inr Cons.IH ..
  also have "\<dots> \<longleftrightarrow> list_all2 (\<lambda>x y. f x = Inr y) (x # xs) ys"
    unfolding list_all2_Cons1 by blast
  finally show ?case .
qed

lemma comprehension_total:
  "(\<And>x. x \<in> set xs \<Longrightarrow> f x = Inr (g x)) \<Longrightarrow> comprehension f xs = Inr (map g xs)"
  by (induction xs) simp_all

lemma comprehension_Inl:
  "x \<in> set xs \<Longrightarrow> f x = Inl e \<Longrightarrow> \<exists>e'. comprehension f xs = Inl e'"
proof (induction xs)
  case Nil
  then show ?case by simp
next
  case (Cons a xs)
  show ?case
  proof (cases "f a")
    case (Inl e')
    then show ?thesis by simp
  next
    case (Inr b)
    with Cons.prems have "x \<in> set xs" by auto
    from Cons.IH [OF this Cons.prems(2)] obtain e' where "comprehension f xs = Inl e'" ..
    with Inr show ?thesis by simp
  qed
qed

lemma shape_where_masked: "shape m = shape a \<Longrightarrow> shape (where_masked a m) = shape a"
  unfolding where_masked_def by (rule shape_map2) simp

lemma nth_where_masked:
  "shape m = shape a \<Longrightarrow> i < length a \<Longrightarrow> j < length (a ! i) \<Longrightarrow>
     where_masked a m ! i ! j = (if m ! i ! j then NaN else a ! i ! j)"
  unfolding where_masked_def by (subst nth_map2_2) simp_all

lemma shape_nan_to_num: "shape (nan_to_num a) = shape a"
  by (simp add: shape_def nan_to_num_def)

lemma nth_nan_to_num:
  "i < length a \<Longrightarrow> j < length (a ! i) \<Longrightarrow> nan_to_num a ! i ! j = nan_to_num1 (a ! i ! j)"
  by (simp add: nan_to_num_def)

lemma mask_loop_indices:
  assumes "distinct is" "\<forall>i\<in>set is. i < length ivs" "\<forall>a\<in>set ivs. shape a = shape m"
  shows "mask_loop ivs m is
    = Inr (map (\<lambda>i. if i \<in> set is then where_masked (ivs ! i) m else ivs ! i)
             [0..<length ivs])"
  using assms
proof (induction "is" arbitrary: ivs)
  case Nil
  then show ?case by (simp add: map_nth)
next
  case (Cons i "is")
  let ?a = "where_masked (ivs ! i) m"
  from Cons.prems have i: "i < length ivs" and ni: "i \<notin> set is" by auto
  with Cons.prems(3) have s: "shape m = shape (ivs ! i)" by (metis nth_mem)
  then have sa: "shape ?a = shape m" by (simp add: shape_where_masked)
  have d: "distinct is" using Cons.prems(1) by simp
  have r: "\<forall>k\<in>set is. k < length (ivs[i := ?a])" using Cons.prems(2) by simp
  have sh: "\<forall>a\<in>set (ivs[i := ?a]). shape a = shape m"
    using Cons.prems(3) sa by (metis insert_iff set_update_subset_insert subsetD)
  have "mask_loop ivs m (i # is) = mask_loop (ivs[i := ?a]) m is"
    using s by (simp add: set_masked_def)
  also have "\<dots> = Inr (map (\<lambda>k. if k \<in> set is then where_masked (ivs[i := ?a] ! k) m
                                  else ivs[i := ?a] ! k) [0..<length (ivs[i := ?a])])"
    using Cons.IH [OF d r sh] .
  also have "map (\<lambda>k. if k \<in> set is then where_masked (ivs[i := ?a] ! k) m
                       else ivs[i := ?a] ! k) [0..<length (ivs[i := ?a])]
      = map (\<lambda>k. if k \<in> set (i # is) then where_masked (ivs ! k) m else ivs ! k)
          [0..<length ivs]"
    using ni i by (auto simp: nth_list_update)
  finally show ?case .
qed

lemma mask_loop_all:
  assumes "\<forall>a\<in>set ivs. shape a = shape m"
  shows "mask_loop ivs m [0..<length ivs] = Inr (map (\<lambda>a. where_masked a m) ivs)"
proof -
  have "mask_loop ivs m [0..<length ivs]
      = Inr (map (\<lambda>i. if i \<in> set [0..<length ivs] then where_masked (ivs ! i) m else ivs ! i)
               [0..<length ivs])"
    using assms by (intro mask_loop_indices) simp_all
  also have "map (\<lambda>i. if i \<in> set [0..<length ivs] then where_masked (ivs ! i) m else ivs ! i)
               [0..<length ivs] = map (\<lambda>i. where_masked (ivs ! i) m) [0..<length ivs]"
    by simp
  also have "\<dots> = map (\<lambda>a. where_masked a m) ivs"
    by (rule nth_equalityI) simp_all
  finally show ?thesis .
qed

lemma length_linspace: "length (linspace a b n) = n"
  by (simp add: linspace_def)

lemma shape_meshgrid:
  "meshgrid_ij xs ys = (xi, yi) \<Longrightarrow>
     shape xi = replicate (length xs) (length ys) \<and> shape yi = replicate (length xs) (length ys)"
  by (auto simp: meshgrid_ij_def shape_def comp_def map_replicate_const)

lemma nth_meshgrid:
  "meshgrid_ij xs ys = (xi, yi) \<Longrightarrow> i < length xs \<Longrightarrow> j < length ys \<Longrightarrow>
     xi ! i ! j = xs ! i \<and> yi ! i ! j = ys ! j"
  by (auto simp: meshgrid_ij_def)

lemma shape_mesh:
  assumes "mesh extent = (xi, yi)"
  shows "shape xi = replicate 100 100" and "shape yi = replicate 100 100"
proof -
  obtain e0 e1 e2 e3 where e: "extent = (e0, e1, e2, e3)" by (cases extent) auto
  with assms have "meshgrid_ij (linspace e0 e1 100) (linspace e2 e3 100) = (xi, yi)"
    by (simp add: mesh_def)
  from shape_meshgrid [OF this]
  show "shape xi = replicate 100 100" and "shape yi = replicate 100 100"
    by (simp_all add: length_linspace)
qed

lemma shape_replicate_length: "shape a = replicate n k \<Longrightarrow> length a = n"
  unfolding shape_def by (metis length_map length_replicate)

lemma shape_replicate_row: "shape a = replicate n k \<Longrightarrow> i < n \<Longrightarrow> length (a ! i) = k"
proof -
  assume s: "shape a = replicate n k" and i: "i < n"
  then have "length a = n" by (simp add: shape_replicate_length)
  with i have "map length a ! i = length (a ! i)" by simp
  with s i show ?thesis by (simp add: shape_def)
qed

lemma griddata_Inr: "lin x y v = Inr f \<Longrightarrow> griddata lin x y v xi yi = Inr (map2 (map2 f) xi yi)"
  by (simp add: griddata_def)

lemma griddata_Inl: "lin x y v = Inl e \<Longrightarrow> griddata lin x y v xi yi = Inl e"
  by (simp add: griddata_def)

lemma griddata_eq_Inr:
  "griddata lin x y v xi yi = Inr g \<longleftrightarrow> (\<exists>f. lin x y v = Inr f \<and> g = map2 (map2 f) xi yi)"
  by (auto simp: griddata_def thenE_eq_Inr)

lemma interpolate_output_Inr:
  assumes m: "mesh extent = (xi, yi)"
    and l: "list_all2 (\<lambda>v f. lin x y v = Inr f) values fs"
  shows "interpolate_output lin x y values extent
    = Inr (map (\<lambda>f. where_masked (nan_to_num (map2 (map2 f) xi yi)) (heat_sink_mask xi yi)) fs)"
proof -
  let ?G = "\<lambda>f. map2 (map2 f) xi yi"
  let ?m = "heat_sink_mask xi yi"
  have sx: "shape yi = shape xi" using shape_mesh [OF m] by simp
  have sm: "shape ?m = shape xi"
    unfolding heat_sink_mask_def using sx by (rule shape_heat_sink_mask_with)
  from l have "list_all2 (\<lambda>v g. griddata lin x y v xi yi = Inr g) values (map ?G fs)"
    by (simp add: list_all2_map2 griddata_Inr list_all2_mono)
  then have c: "comprehension (\<lambda>value. griddata lin x y value xi yi) values = Inr (map ?G fs)"
    by (simp add: comprehension_Inr)
  have "\<forall>a\<in>set (map nan_to_num (map ?G fs)). shape a = shape ?m"
    using sx sm by (auto simp: shape_nan_to_num shape_map2)
  from mask_loop_all [OF this]
  have "mask_loop (map nan_to_num (map ?G fs)) ?m [0..<length (map ?G fs)]
      = Inr (map (\<lambda>a. where_masked a ?m) (map nan_to_num (map ?G fs)))"
    by simp
  with c m show ?thesis
    by (simp add: interpolate_output_def Let_def comp_def)
qed

lemma interpolate_output_Inl:
  assumes "v \<in> set values" "lin x y v = Inl e"
  shows "\<exists>e'. interpolate_output lin x y values extent = Inl e'"
proof -
  obtain xi yi where m: "mesh extent = (xi, yi)" by (cases "mesh extent") auto
  from assms(2) have "griddata lin x y v xi yi = Inl e" by (rule griddata_Inl)
  from comprehension_Inl [OF assms(1), of "\<lambda>value. griddata lin x y value xi yi", OF this]
  obtain e' where "comprehension (\<lambda>value. griddata lin x y value xi yi) values = Inl e'" ..
  with m show ?thesis by (simp add: interpolate_output_def Let_def)
qed

lemma interpolate_output_succeeds:
  assumes "interpolate_output lin x y values extent = Inr gs"
  shows "\<exists>fs. list_all2 (\<lambda>v f. lin x y v = Inr f) values fs"
proof -
  have "\<exists>f. lin x y v = Inr f" if "v \<in> set values" for v
  proof (cases "lin x y v")
    case (Inl e)
    have "\<exists>e'. interpolate_output lin x y values extent = Inl e'"
      using that Inl by (rule interpolate_output_Inl)
    with assms show ?thesis by auto
  next
    case (Inr f)
    then show ?thesis by blast
  qed
  then have "lin x y v = Inr (projr (lin x y v))" if "v \<in> set values" for v
    using that by force
  then have "list_all2 (\<lambda>v f. lin x y v = Inr f) values (map (\<lambda>v. projr (lin x y v)) values)"
    by (simp add: list_all2_map2 list_all2_same)
  then show ?thesis ..
qed

lemma nth_mesh_field:
  assumes m: "mesh extent = (xi, yi)" and i: "i < 100" and j: "j < 100"
  shows "where_masked (nan_to_num (map2 (map2 f) xi yi)) (heat_sink_mask xi yi) ! i ! j
    = (if heat_sink_mask xi yi ! i ! j then NaN else nan_to_num1 (f (xi ! i ! j) (yi ! i ! j)))"
proof -
  let ?g = "map2 (map2 f) xi yi"
  let ?m = "heat_sink_mask xi yi"
  have sx: "shape xi = replicate 100 100" and sy: "shape yi = replicate 100 100"
    using shape_mesh [OF m] by simp_all
  have ix: "i < length xi" "j < length (xi ! i)"
    using sx i j by (simp_all add: shape_replicate_length shape_replicate_row)
  have sg: "shape ?g = shape xi" using sx sy by (simp add: shape_map2)
  have sn: "shape (nan_to_num ?g) = shape xi" using sg by (simp add: shape_nan_to_num)
  have sm: "shape ?m = shape (nan_to_num ?g)"
    unfolding heat_sink_mask_def using sx sy sn by (simp add: shape_heat_sink_mask_with)
  have ig: "i < length ?g \<and> j < length (?g ! i)"
    using sg ix by (rule shape_in_range)
  have ign: "i < length (nan_to_num ?g) \<and> j < length (nan_to_num ?g ! i)"
    using sn ix by (rule shape_in_range)
  have g: "?g ! i ! j = f (xi ! i ! j) (yi ! i ! j)"
    using sx sy ix by (simp add: nth_map2_2)
  have "nan_to_num ?g ! i ! j = nan_to_num1 (?g ! i ! j)"
    by (rule nth_nan_to_num [OF conjunct1 [OF ig] conjunct2 [OF ig]])
  with g have n: "nan_to_num ?g ! i ! j = nan_to_num1 (f (xi ! i ! j) (yi ! i ! j))"
    by (simp only:)
  have "where_masked (nan_to_num ?g) ?m ! i ! j
      = (if ?m ! i ! j then NaN else nan_to_num ?g ! i ! j)"
    by (rule nth_where_masked [OF sm conjunct1 [OF ign] conjunct2 [OF ign]])
  with n show ?thesis by (simp only:)
qed

lemma shape_mesh_field:
  assumes m: "mesh extent = (xi, yi)"
  shows "shape (where_masked (nan_to_num (map2 (map2 f) xi yi)) (heat_sink_mask xi yi))
    = replicate 100 100"
proof -
  let ?g = "map2 (map2 f) xi yi"
  have sx: "shape xi = replicate 100 100" and sy: "shape yi = replicate 100 100"
    using shape_mesh [OF m] by simp_all
  have sn: "shape (nan_to_num ?g) = shape xi"
    using sx sy by (simp add: shape_nan_to_num shape_map2)
  have "shape (heat_sink_mask xi yi) = shape (nan_to_num ?g)"
    unfolding heat_sink_mask_def using sx sy sn by (simp add: shape_heat_sink_mask_with)
  then show ?thesis using sn sx by (simp add: shape_where_masked)
qed

lemma shape_100: "shape g = replicate 100 100 \<longleftrightarrow> length g = 100 \<and> (\<forall>row\<in>set g. length row = 100)"
proof
  assume s: "shape g = replicate 100 100"
  then have l: "length g = 100" by (rule shape_replicate_length)
  have "length row = 100" if "row \<in> set g" for row
  proof -
    from that obtain i where "i < length g" "g ! i = row" by (auto simp: in_set_conv_nth)
    with shape_replicate_row [OF s, of i] l show ?thesis by simp
  qed
  with l show "length g = 100 \<and> (\<forall>row\<in>set g. length row = 100)" by simp
next
  assume "length g = 100 \<and> (\<forall>row\<in>set g. length row = 100)"
  then show "shape g = replicate 100 100"
    unfolding shape_def by (intro nth_equalityI) simp_all
qed

lemma flat_ex: "\<not> flat ex_x" "\<not> flat ex_y"
  by (simp_all add: flat_def ex_x_def ex_y_def)

lemma const_lin_ex: "v \<noteq> [] \<Longrightarrow> const_lin ex_x ex_y v = Inr (\<lambda>_ _. hd v)"
  by (cases v) (simp_all add: const_lin_def flat_ex)

section \<open>Properties of the plot and of the call\<close>

lemma list10:
  assumes "length ivs = 10"
  shows "ivs = [ivs ! 0, ivs ! 1, ivs ! 2, ivs ! 3, ivs ! 4, ivs ! 5, ivs ! 6, ivs ! 7, ivs ! 8, ivs ! 9]"
proof -
  from assms obtain a0 a1 a2 a3 a4 a5 a6 a7 a8 a9 where "ivs = [a0, a1, a2, a3, a4, a5, a6, a7, a8, a9]"
    by (auto simp: length_Suc_conv eval_nat_numeral)
  then show ?thesis by simp
qed

lemma plot_length: "plot extent ivs = Inr res \<Longrightarrow> length ivs = 10"
  by (auto simp: plot_def split: list.splits)

lemma upt_15: "[0..<15] = [0, 1, 2, 3, 4, 5, 6, 7, 8, 9, 10, 11, 12, 13, 14]"
  by (simp add: upt_rec)

lemma draw_eq:
  "i < 15 \<Longrightarrow> draw extent data i =
     Inr \<lparr> title = titles ! i, xlabel = ''x'', ylabel = ''y'', image = transpose (data ! i),
           img_extent = extent, clim = colorbar_limits (variables ! i) \<rparr>"
proof -
  assume "i < 15"
  then have "i \<in> set [0..<15]" by simp
  then have "i \<in> {0, 1, 2, 3, 4, 5, 6, 7, 8, 9, 10, 11, 12, 13, 14}"
    unfolding upt_15 by simp
  then show ?thesis
    by (auto simp: draw_def variables_def colorbar_limits_def getitem_def Let_def)
qed

lemma plot_10:
  "plot extent [a0, a1, a2, a3, a4, a5, a6, a7, a8, a9] =
     Inr [(\<lparr> suptitle = ''Heat sink 2D: PINN vs True Solution'',
            panels = map (\<lambda>i. \<lparr> title = titles ! i, xlabel = ''x'', ylabel = ''y'',
                 image = transpose ([a5, a0, np_sub a0 a5, a6, a1, np_sub a1 a6,
                   a7, a2, np_sub a2 a7, a8, a3, np_sub a3 a8, a9, a4, np_sub a4 a9] ! i),
                 img_extent = extent, clim = colorbar_limits (variables ! i) \<rparr>) [0..<15] \<rparr>,
           ''custom_plot'')]"
proof -
  let ?data = "[a5, a0, np_sub a0 a5, a6, a1, np_sub a1 a6,
                   a7, a2, np_sub a2 a7, a8, a3, np_sub a3 a8, a9, a4, np_sub a4 a9]"
  have "comprehension (draw extent ?data) [0..<15] =
     Inr (map (\<lambda>i. \<lparr> title = titles ! i, xlabel = ''x'', ylabel = ''y'',
                 image = transpose (?data ! i),
                 img_extent = extent, clim = colorbar_limits (variables ! i) \<rparr>) [0..<15])"
    by (rule comprehension_total) (simp add: draw_eq)
  then show ?thesis by (simp add: plot_def Let_def)
qed

lemma getitem_eq_Inr: "getitem d k = Inr a \<longleftrightarrow> d k = Some a"
  by (simp add: getitem_def split: option.splits)

lemma call_Inr_cases:
  assumes "call lin invar true_outvar pred_outvar = Inr res"
  obtains x y x0 x1 y0 y1 pt ut vt nut ct pp up vp nup cp ivs where
    "invar ''x'' = Some x" "invar ''y'' = Some y"
    "np_min x = Inr x0" "np_max x = Inr x1" "np_min y = Inr y0" "np_max y = Inr y1"
    "true_outvar ''p'' = Some pt" "true_outvar ''u'' = Some ut" "true_outvar ''v'' = Some vt"
    "true_outvar ''nu'' = Some nut" "true_outvar ''c'' = Some ct"
    "pred_outvar ''p'' = Some pp" "pred_outvar ''u'' = Some up" "pred_outvar ''v'' = Some vp"
    "pred_outvar ''nu'' = Some nup" "pred_outvar ''c'' = Some cp"
    "interpolate_output lin x y
       [pt, ut, vt, nut, np_scale ct (double 273.15), pp, up, vp, nup, np_scale cp (double 273.15)]
       (x0, x1, y0, y1) = Inr ivs"
    "plot (x0, x1, y0, y1) ivs = Inr res"
  using assms unfolding call_def Let_def thenE_eq_Inr getitem_eq_Inr by blast

lemma call_eq:
  assumes "invar ''x'' = Some x" "invar ''y'' = Some y"
    "np_min x = Inr x0" "np_max x = Inr x1" "np_min y = Inr y0" "np_max y = Inr y1"
    "true_outvar ''p'' = Some pt" "true_outvar ''u'' = Some ut" "true_outvar ''v'' = Some vt"
    "true_outvar ''nu'' = Some nut" "true_outvar ''c'' = Some ct"
    "pred_outvar ''p'' = Some pp" "pred_outvar ''u'' = Some up" "pred_outvar ''v'' = Some vp"
    "pred_outvar ''nu'' = Some nup" "pred_outvar ''c'' = Some cp"
  shows "call lin invar true_outvar pred_outvar =
    thenE (interpolate_output lin x y
       [pt, ut, vt, nut, np_scale ct (double 273.15), pp, up, vp, nup, np_scale cp (double 273.15)]
       (x0, x1, y0, y1)) (plot (x0, x1, y0, y1))"
  using assms by (simp add: call_def Let_def getitem_def)

lemma nth_transpose_100:
  assumes s: "shape a = replicate 100 100" and r: "r < 100" and c: "c < 100"
  shows "transpose a ! r ! c = a ! c ! r"
proof -
  have l: "length a = 100" using s by (rule shape_replicate_length)
  then have ne: "a = [] \<Longrightarrow> (100::nat) = 0" by auto
  have rect: "\<And>i. i < length a \<Longrightarrow> length (a ! i) = 100"
    using s l by (simp add: shape_replicate_row)
  have "transpose a = map (\<lambda>i. map (\<lambda>j. a ! j ! i) [0..<length a]) [0..<100]"
    using ne rect by (rule transpose_rectangle)
  with l r c show ?thesis by simp
qed

lemma shape_np_sub: "shape a = shape b \<Longrightarrow> shape (np_sub a b) = shape a"
  unfolding np_sub_def by (rule shape_map2)

lemma nth_np_sub:
  "shape a = shape b \<Longrightarrow> i < length a \<Longrightarrow> j < length (a ! i) \<Longrightarrow>
     np_sub a b ! i ! j = vsub (a ! i ! j) (b ! i ! j)"
  unfolding np_sub_def by (rule nth_map2_2)

lemma nth_transpose_np_sub:
  assumes "shape a = replicate 100 100" "shape b = replicate 100 100" "r < 100" "c < 100"
  shows "transpose (np_sub a b) ! r ! c = vsub (transpose a ! r ! c) (transpose b ! r ! c)"
proof -
  have s: "shape (np_sub a b) = replicate 100 100"
    using assms(1,2) by (simp add: shape_np_sub)
  have i: "c < length a" "r < length (a ! c)"
    using assms(1,3,4) by (simp_all add: shape_replicate_length shape_replicate_row)
  have "transpose (np_sub a b) ! r ! c = np_sub a b ! c ! r"
    using s assms(3,4) by (rule nth_transpose_100)
  also have "\<dots> = vsub (a ! c ! r) (b ! c ! r)"
    using assms(1,2) i by (simp add: nth_np_sub)
  finally show ?thesis
    using assms by (simp add: nth_transpose_100)
qed

lemma nan_to_num1_cases: "nan_to_num1 v = NaN \<or> (\<exists>a. nan_to_num1 v = Finite a)"
  by (cases v) simp_all

lemma call_interpolated:
  assumes "call lin invar true_outvar pred_outvar = Inr res"
  obtains e ivs where "length ivs = 10" "plot e ivs = Inr res"
    "\<forall>k<10. shape (ivs ! k) = replicate 100 100"
    "\<forall>k<10. \<forall>i<100. \<forall>j<100. ivs ! k ! i ! j = NaN \<or> (\<exists>a. ivs ! k ! i ! j = Finite a)"
proof -
  from assms obtain x y x0 x1 y0 y1 vs ivs where
    i: "interpolate_output lin x y vs (x0, x1, y0, y1) = Inr ivs"
    and p: "plot (x0, x1, y0, y1) ivs = Inr res"
    by (rule call_Inr_cases)
  obtain xi yi where m: "mesh (x0, x1, y0, y1) = (xi, yi)"
    by (cases "mesh (x0, x1, y0, y1)") auto
  from interpolate_output_succeeds [OF i]
  obtain fs where fs: "list_all2 (\<lambda>v f. lin x y v = Inr f) vs fs" ..
  let ?F = "\<lambda>f. where_masked (nan_to_num (map2 (map2 f) xi yi)) (heat_sink_mask xi yi)"
  have "interpolate_output lin x y vs (x0, x1, y0, y1) = Inr (map ?F fs)"
    using m fs by (rule interpolate_output_Inr)
  with i have e: "ivs = map ?F fs" by simp
  from p have l: "length ivs = 10" by (rule plot_length)
  with e have lf: "length fs = 10" by simp
  have s: "\<forall>k<10. shape (ivs ! k) = replicate 100 100"
    using e lf shape_mesh_field [OF m] by simp
  have "ivs ! k ! i ! j = NaN \<or> (\<exists>a. ivs ! k ! i ! j = Finite a)"
    if "k < 10" "i < 100" "j < 100" for k i j
  proof -
    have "ivs ! k ! i ! j = (if heat_sink_mask xi yi ! i ! j then NaN
        else nan_to_num1 ((fs ! k) (xi ! i ! j) (yi ! i ! j)))"
      using e lf that nth_mesh_field [OF m that(2,3)] by simp
    then show ?thesis using nan_to_num1_cases by auto
  qed
  with l p s show ?thesis by (intro that [of ivs "(x0, x1, y0, y1)"]) auto
qed

lemma upt_5: "[0..<5] = [0, 1, 2, 3, 4]"
  by (simp add: upt_rec)

lemma plot_panels:
  assumes l: "length ivs = 10" and q: "q < 5"
  shows "\<exists>fig. plot e ivs = Inr [(fig, ''custom_plot'')] \<and> length (panels fig) = 15 \<and>
    title (panels fig ! (3 * q)) = ''Modulus: '' @ [''p'', ''u'', ''v'', ''nu'', ''c''] ! q \<and>
    title (panels fig ! (3 * q + 1)) = ''OpenFOAM: '' @ [''p'', ''u'', ''v'', ''nu'', ''c''] ! q \<and>
    title (panels fig ! (3 * q + 2)) = ''Difference: '' @ [''p'', ''u'', ''v'', ''nu'', ''c''] ! q \<and>
    image (panels fig ! (3 * q)) = transpose (ivs ! (q + 5)) \<and>
    image (panels fig ! (3 * q + 1)) = transpose (ivs ! q) \<and>
    image (panels fig ! (3 * q + 2)) = transpose (np_sub (ivs ! q) (ivs ! (q + 5)))"
proof -
  from q have "q \<in> set [0..<5]" by simp
  then have qs: "q \<in> {0, 1, 2, 3, 4}" unfolding upt_5 by simp
  note l10 = list10 [OF l]
  have "plot e ivs = plot e [ivs ! 0, ivs ! 1, ivs ! 2, ivs ! 3, ivs ! 4, ivs ! 5, ivs ! 6,
      ivs ! 7, ivs ! 8, ivs ! 9]"
    using l10 by simp
  also note plot_10
  finally show ?thesis
    using qs by (auto simp: titles_def)
qed

lemma call_cells:
  assumes "call lin invar true_outvar pred_outvar = Inr res" "q < 5" "r < 100" "c < 100"
  shows "\<exists>fig. res = [(fig, ''custom_plot'')] \<and>
    title (panels fig ! (3 * q)) = ''Modulus: '' @ [''p'', ''u'', ''v'', ''nu'', ''c''] ! q \<and>
    title (panels fig ! (3 * q + 1)) = ''OpenFOAM: '' @ [''p'', ''u'', ''v'', ''nu'', ''c''] ! q \<and>
    title (panels fig ! (3 * q + 2)) = ''Difference: '' @ [''p'', ''u'', ''v'', ''nu'', ''c''] ! q \<and>
    image (panels fig ! (3 * q + 2)) ! r ! c
      = vsub (image (panels fig ! (3 * q + 1)) ! r ! c) (image (panels fig ! (3 * q)) ! r ! c) \<and>
    (image (panels fig ! (3 * q)) ! r ! c = NaN
       \<or> (\<exists>a. image (panels fig ! (3 * q)) ! r ! c = Finite a)) \<and>
    (image (panels fig ! (3 * q + 1)) ! r ! c = NaN
       \<or> (\<exists>a. image (panels fig ! (3 * q + 1)) ! r ! c = Finite a))"
proof -
  from assms(1) obtain e ivs where l: "length ivs = 10" and p: "plot e ivs = Inr res"
    and s: "\<forall>k<10. shape (ivs ! k) = replicate 100 100"
    and v: "\<forall>k<10. \<forall>i<100. \<forall>j<100. ivs ! k ! i ! j = NaN \<or> (\<exists>a. ivs ! k ! i ! j = Finite a)"
    by (rule call_interpolated)
  from plot_panels [OF l assms(2), of e] obtain fig where
    f: "plot e ivs = Inr [(fig, ''custom_plot'')]"
    and t: "title (panels fig ! (3 * q)) = ''Modulus: '' @ [''p'', ''u'', ''v'', ''nu'', ''c''] ! q"
      "title (panels fig ! (3 * q + 1)) = ''OpenFOAM: '' @ [''p'', ''u'', ''v'', ''nu'', ''c''] ! q"
      "title (panels fig ! (3 * q + 2)) = ''Difference: '' @ [''p'', ''u'', ''v'', ''nu'', ''c''] ! q"
    and i: "image (panels fig ! (3 * q)) = transpose (ivs ! (q + 5))"
      "image (panels fig ! (3 * q + 1)) = transpose (ivs ! q)"
      "image (panels fig ! (3 * q + 2)) = transpose (np_sub (ivs ! q) (ivs ! (q + 5)))"
    by blast
  from assms(2) have q: "q < 10" "q + 5 < 10" by simp_all
  with s have sq: "shape (ivs ! q) = replicate 100 100"
    and sp: "shape (ivs ! (q + 5)) = replicate 100 100" by simp_all
  have d: "image (panels fig ! (3 * q + 2)) ! r ! c
      = vsub (image (panels fig ! (3 * q + 1)) ! r ! c) (image (panels fig ! (3 * q)) ! r ! c)"
    unfolding i using sq sp assms(3,4) by (rule nth_transpose_np_sub)
  have tp: "transpose (ivs ! (q + 5)) ! r ! c = ivs ! (q + 5) ! c ! r"
    using sp assms(3,4) by (rule nth_transpose_100)
  have tq: "transpose (ivs ! q) ! r ! c = ivs ! q ! c ! r"
    using sq assms(3,4) by (rule nth_transpose_100)
  have vp: "image (panels fig ! (3 * q)) ! r ! c = NaN
       \<or> (\<exists>a. image (panels fig ! (3 * q)) ! r ! c = Finite a)"
    unfolding i tp using v q(2) assms(3,4) by blast
  have vq: "image (panels fig ! (3 * q + 1)) ! r ! c = NaN
       \<or> (\<exists>a. image (panels fig ! (3 * q + 1)) ! r ! c = Finite a)"
    unfolding i tq using v q(1) assms(3,4) by blast
  from p f have "res = [(fig, ''custom_plot'')]" by simp
  with t d vp vq show ?thesis by blast
qed

lemma np_ex: "np_min ex_x = Inr 0" "np_max ex_x = Inr 1" "np_min ex_y = Inr 0" "np_max ex_y = Inr 1"
  by (simp_all add: ex_x_def ex_y_def)

lemma call_ex_plot:
  "call const_lin ex_invar ex_true ex_pred =
     plot (0, 1, 0, 1)
       (map (\<lambda>f. where_masked
                (nan_to_num (map2 (map2 f) (fst (mesh (0, 1, 0, 1))) (snd (mesh (0, 1, 0, 1)))))
                (heat_sink_mask (fst (mesh (0, 1, 0, 1))) (snd (mesh (0, 1, 0, 1)))))
          [\<lambda>_ _. Finite 1, \<lambda>_ _. Finite 1, \<lambda>_ _. Finite 1, \<lambda>_ _. Finite 1,
           \<lambda>_ _. vscale (Finite 1) (double 273.15),
           \<lambda>_ _. Finite 0, \<lambda>_ _. Finite 0, \<lambda>_ _. Finite 0, \<lambda>_ _. Finite 0,
           \<lambda>_ _. Finite 0])"
proof -
  have m: "mesh (0, 1, 0, 1) = (fst (mesh (0, 1, 0, 1)), snd (mesh (0, 1, 0, 1)))" by simp
  have a: "list_all2 (\<lambda>v f. const_lin ex_x ex_y v = Inr f)
      [ones, ones, ones, ones, np_scale ones (double 273.15),
       zeros, zeros, zeros, zeros, np_scale zeros (double 273.15)]
      [\<lambda>_ _. Finite 1, \<lambda>_ _. Finite 1, \<lambda>_ _. Finite 1, \<lambda>_ _. Finite 1,
           \<lambda>_ _. vscale (Finite 1) (double 273.15),
           \<lambda>_ _. Finite 0, \<lambda>_ _. Finite 0, \<lambda>_ _. Finite 0, \<lambda>_ _. Finite 0,
           \<lambda>_ _. Finite 0]"
    by (simp add: const_lin_ex ones_def zeros_def np_scale_def fl_0)
  have "call const_lin ex_invar ex_true ex_pred =
    thenE (interpolate_output const_lin ex_x ex_y
       [ones, ones, ones, ones, np_scale ones (double 273.15),
        zeros, zeros, zeros, zeros, np_scale zeros (double 273.15)]
       (0, 1, 0, 1)) (plot (0, 1, 0, 1))"
    by (rule call_eq) (simp_all add: ex_invar_def ex_true_def ex_pred_def np_ex)
  also have "interpolate_output const_lin ex_x ex_y
       [ones, ones, ones, ones, np_scale ones (double 273.15),
        zeros, zeros, zeros, zeros, np_scale zeros (double 273.15)]
       (0, 1, 0, 1) = Inr (map (\<lambda>f. where_masked
                (nan_to_num (map2 (map2 f) (fst (mesh (0, 1, 0, 1))) (snd (mesh (0, 1, 0, 1)))))
                (heat_sink_mask (fst (mesh (0, 1, 0, 1))) (snd (mesh (0, 1, 0, 1)))))
          [\<lambda>_ _. Finite 1, \<lambda>_ _. Finite 1, \<lambda>_ _. Finite 1, \<lambda>_ _. Finite 1,
           \<lambda>_ _. vscale (Finite 1) (double 273.15),
           \<lambda>_ _. Finite 0, \<lambda>_ _. Finite 0, \<lambda>_ _. Finite 0, \<lambda>_ _. Finite 0,
           \<lambda>_ _. Finite 0])"
    using m a by (rule interpolate_output_Inr)
  finally show ?thesis by simp
qed

lemma ex_mask_50: "\<not> heat_sink_mask (fst (mesh (0, 1, 0, 1))) (snd (mesh (0, 1, 0, 1))) ! 50 ! 50"
proof -
  let ?xi = "fst (mesh (0, 1, 0, 1))" and ?yi = "snd (mesh (0, 1, 0, 1))"
  have m: "mesh (0, 1, 0, 1) = (?xi, ?yi)" by simp
  have sx: "shape ?xi = replicate 100 100" and sy: "shape ?yi = replicate 100 100"
    using shape_mesh [OF m] by simp_all
  have i: "50 < length ?xi" "50 < length (?xi ! 50)"
    using sx by (simp_all add: shape_replicate_length shape_replicate_row)
  have "meshgrid_ij (linspace 0 1 100) (linspace 0 1 100) = (?xi, ?yi)"
    by (simp add: mesh_def)
  from nth_meshgrid [OF this, of 50 50] have "?xi ! 50 ! 50 = linspace 0 1 100 ! 50"
    by (simp add: length_linspace)
  also have "\<dots> = 50 / 99" by (simp add: linspace_def)
  finally have x: "?xi ! 50 ! 50 = 50 / 99" .
  have s: "shape ?yi = shape ?xi" using sx sy by simp
  show ?thesis
    unfolding nth_heat_sink_mask [OF s i] in_fin_hc x by simp
qed

lemma ex_panels:
  fixes F
  defines "F \<equiv> \<lambda>f. where_masked
     (nan_to_num (map2 (map2 f) (fst (mesh (0, 1, 0, 1))) (snd (mesh (0, 1, 0, 1)))))
     (heat_sink_mask (fst (mesh (0, 1, 0, 1))) (snd (mesh (0, 1, 0, 1))))"
  shows "call const_lin ex_invar ex_true ex_pred = Inr [(ex_fig, ''custom_plot'')]"
    and "image (panels ex_fig ! 0) = transpose (F (\<lambda>_ _. Finite 0))"
    and "image (panels ex_fig ! 1) = transpose (F (\<lambda>_ _. Finite 1))"
    and "image (panels ex_fig ! 2)
      = transpose (np_sub (F (\<lambda>_ _. Finite 1)) (F (\<lambda>_ _. Finite 0)))"
proof -
  let ?ivs = "map F [\<lambda>_ _. Finite 1, \<lambda>_ _. Finite 1, \<lambda>_ _. Finite 1, \<lambda>_ _. Finite 1,
           \<lambda>_ _. vscale (Finite 1) (double 273.15),
           \<lambda>_ _. Finite 0, \<lambda>_ _. Finite 0, \<lambda>_ _. Finite 0, \<lambda>_ _. Finite 0,
           \<lambda>_ _. Finite 0]"
  have l: "length ?ivs = 10" by simp
  have z: "(0::nat) < 5" by simp
  from plot_panels [OF l z, of "(0, 1, 0, 1)"] obtain fig where
    f: "plot (0, 1, 0, 1) ?ivs = Inr [(fig, ''custom_plot'')]"
    and i: "image (panels fig ! (3 * 0)) = transpose (?ivs ! (0 + 5))"
      "image (panels fig ! (3 * 0 + 1)) = transpose (?ivs ! 0)"
      "image (panels fig ! (3 * 0 + 2)) = transpose (np_sub (?ivs ! 0) (?ivs ! (0 + 5)))"
    by blast
  have c: "call const_lin ex_invar ex_true ex_pred = Inr [(fig, ''custom_plot'')]"
    unfolding call_ex_plot F_def [symmetric] by (rule f)
  then have e: "ex_fig = fig" by (simp add: ex_fig_def)
  show "call const_lin ex_invar ex_true ex_pred = Inr [(ex_fig, ''custom_plot'')]"
    unfolding e by (rule c)
  show "image (panels ex_fig ! 0) = transpose (F (\<lambda>_ _. Finite 0))"
    unfolding e using i(1) by simp
  show "image (panels ex_fig ! 1) = transpose (F (\<lambda>_ _. Finite 1))"
    unfolding e using i(2) by simp
  show "image (panels ex_fig ! 2)
      = transpose (np_sub (F (\<lambda>_ _. Finite 1)) (F (\<lambda>_ _. Finite 0)))"
    unfolding e using i(3) by (simp add: numeral_2_eq_2)
qed

lemma ex_cells:
  "image (panels ex_fig ! 0) ! 50 ! 50 = Finite 0"
  "image (panels ex_fig ! 1) ! 50 ! 50 = Finite 1"
  "image (panels ex_fig ! 2) ! 50 ! 50 = Finite 1"
proof -
  let ?xi = "fst (mesh (0, 1, 0, 1))" and ?yi = "snd (mesh (0, 1, 0, 1))"
  let ?F = "\<lambda>f. where_masked (nan_to_num (map2 (map2 f) ?xi ?yi)) (heat_sink_mask ?xi ?yi)"
  have m: "mesh (0, 1, 0, 1) = (?xi, ?yi)" by simp
  have F: "?F (\<lambda>_ _. v) ! 50 ! 50 = nan_to_num1 v" for v
    using nth_mesh_field [OF m, of 50 50 "\<lambda>_ _. v"] ex_mask_50 by simp
  have s: "shape (?F f) = replicate 100 100" for f
    using m by (rule shape_mesh_field)
  have t: "transpose (?F (\<lambda>_ _. v)) ! 50 ! 50 = nan_to_num1 v" for v
    using nth_transpose_100 [OF s, of 50 50] F by simp
  show "image (panels ex_fig ! 0) ! 50 ! 50 = Finite 0"
    unfolding ex_panels(2) t by simp
  show "image (panels ex_fig ! 1) ! 50 ! 50 = Finite 1"
    unfolding ex_panels(3) t by simp
  have "transpose (np_sub (?F (\<lambda>_ _. Finite 1)) (?F (\<lambda>_ _. Finite 0))) ! 50 ! 50
      = vsub (transpose (?F (\<lambda>_ _. Finite 1)) ! 50 ! 50)
          (transpose (?F (\<lambda>_ _. Finite 0)) ! 50 ! 50)"
    by (rule nth_transpose_np_sub [OF s s]) simp_all
  then show "image (panels ex_fig ! 2) ! 50 ! 50 = Finite 1"
    unfolding ex_panels(4) t by (simp add: fl_1)
qed


text \<open>
  Where the panels of a row come from: the "Modulus" panel is the interpolated, masked
  field of \<^verbatim>\<open>pred_outvar\<close>, the "OpenFOAM" panel that of \<^verbatim>\<open>true_outvar\<close>.
\<close>

lemma call_sources:
  assumes c: "call lin invar true_outvar pred_outvar = Inr res"
    and q: "q < 5" and r: "r < 100" and cc: "c < 100"
    and x: "invar ''x'' = Some x" and y: "invar ''y'' = Some y"
    and e: "np_min x = Inr x0" "np_max x = Inr x1" "np_min y = Inr y0" "np_max y = Inr y1"
    and m: "mesh (x0, x1, y0, y1) = (xi, yi)"
    and t: "true_outvar ([''p'', ''u'', ''v'', ''nu'', ''c''] ! q) = Some tf"
    and p: "pred_outvar ([''p'', ''u'', ''v'', ''nu'', ''c''] ! q) = Some pf"
    and lt: "lin x y (if q = 4 then np_scale tf (double 273.15) else tf) = Inr ft"
    and lp: "lin x y (if q = 4 then np_scale pf (double 273.15) else pf) = Inr fp"
  shows "\<exists>fig. res = [(fig, ''custom_plot'')] \<and>
    image (panels fig ! (3 * q)) ! r ! c
      = (if heat_sink_mask xi yi ! c ! r then NaN
         else nan_to_num1 (fp (xi ! c ! r) (yi ! c ! r))) \<and>
    image (panels fig ! (3 * q + 1)) ! r ! c
      = (if heat_sink_mask xi yi ! c ! r then NaN
         else nan_to_num1 (ft (xi ! c ! r) (yi ! c ! r)))"
proof -
  from c obtain x' y' x0' x1' y0' y1' pt ut vt nut ct pp up vp nup cp ivs where
    x': "invar ''x'' = Some x'" "invar ''y'' = Some y'"
    and e': "np_min x' = Inr x0'" "np_max x' = Inr x1'" "np_min y' = Inr y0'"
      "np_max y' = Inr y1'"
    and T: "true_outvar ''p'' = Some pt" "true_outvar ''u'' = Some ut"
      "true_outvar ''v'' = Some vt" "true_outvar ''nu'' = Some nut" "true_outvar ''c'' = Some ct"
    and P: "pred_outvar ''p'' = Some pp" "pred_outvar ''u'' = Some up"
      "pred_outvar ''v'' = Some vp" "pred_outvar ''nu'' = Some nup" "pred_outvar ''c'' = Some cp"
    and i': "interpolate_output lin x' y'
       [pt, ut, vt, nut, np_scale ct (double 273.15), pp, up, vp, nup, np_scale cp (double 273.15)]
       (x0', x1', y0', y1') = Inr ivs"
    and pl: "plot (x0', x1', y0', y1') ivs = Inr res"
    by (rule call_Inr_cases)
  from x' x y have xy: "x' = x" "y' = y" by simp_all
  from e' e have ee: "x0' = x0" "x1' = x1" "y0' = y0" "y1' = y1"
    unfolding xy by simp_all
  let ?vs = "[pt, ut, vt, nut, np_scale ct (double 273.15),
              pp, up, vp, nup, np_scale cp (double 273.15)]"
  let ?F = "\<lambda>f. where_masked (nan_to_num (map2 (map2 f) xi yi)) (heat_sink_mask xi yi)"
  have i: "interpolate_output lin x y ?vs (x0, x1, y0, y1) = Inr ivs"
    using i' unfolding xy ee .
  from interpolate_output_succeeds [OF i]
  obtain fs where fs: "list_all2 (\<lambda>v f. lin x y v = Inr f) ?vs fs" ..
  have "interpolate_output lin x y ?vs (x0, x1, y0, y1) = Inr (map ?F fs)"
    using m fs by (rule interpolate_output_Inr)
  with i have iv: "ivs = map ?F fs" by simp
  from fs have lf: "length fs = 10" by (simp add: list_all2_lengthD [symmetric])
  have k: "lin x y (?vs ! k) = Inr (fs ! k)" if "k < 10" for k
    using fs that by (simp add: list_all2_conv_all_nth)
  from q have "q \<in> set [0..<5]" by simp
  then have qs: "q \<in> {0, 1, 2, 3, 4}" unfolding upt_5 by simp
  have vq: "?vs ! q = (if q = 4 then np_scale tf (double 273.15) else tf)"
    using qs t T by auto
  have vp: "?vs ! (q + 5) = (if q = 4 then np_scale pf (double 273.15) else pf)"
    using qs p P by auto
  from q have q10: "q < 10" "q + 5 < 10" by simp_all
  from k [OF q10(1)] lt have ft: "fs ! q = ft" unfolding vq by simp
  from k [OF q10(2)] lp have fp: "fs ! (q + 5) = fp" unfolding vp by simp
  have l: "length ivs = 10" using iv lf by simp
  from plot_panels [OF l q, of "(x0, x1, y0, y1)"] obtain fig where
    f: "plot (x0, x1, y0, y1) ivs = Inr [(fig, ''custom_plot'')]"
    and im: "image (panels fig ! (3 * q)) = transpose (ivs ! (q + 5))"
      "image (panels fig ! (3 * q + 1)) = transpose (ivs ! q)"
    by blast
  from pl f have res: "res = [(fig, ''custom_plot'')]" unfolding ee by simp
  have s: "shape (ivs ! k) = replicate 100 100" if "k < 10" for k
    using iv lf that shape_mesh_field [OF m] by simp
  have cell: "ivs ! k ! c ! r = (if heat_sink_mask xi yi ! c ! r then NaN
        else nan_to_num1 ((fs ! k) (xi ! c ! r) (yi ! c ! r)))" if "k < 10" for k
    using iv lf that nth_mesh_field [OF m cc r] by simp
  have 1: "image (panels fig ! (3 * q)) ! r ! c
      = (if heat_sink_mask xi yi ! c ! r then NaN
         else nan_to_num1 (fp (xi ! c ! r) (yi ! c ! r)))"
    unfolding im nth_transpose_100 [OF s [OF q10(2)] r cc] cell [OF q10(2)] fp ..
  have 2: "image (panels fig ! (3 * q + 1)) ! r ! c
      = (if heat_sink_mask xi yi ! c ! r then NaN
         else nan_to_num1 (ft (xi ! c ! r) (yi ! c ! r)))"
    unfolding im nth_transpose_100 [OF s [OF q10(1)] r cc] cell [OF q10(1)] ft ..
  from res 1 2 show ?thesis by blast
qed

section \<open>Properties of the program over the store\<close>

subsection \<open>What a step leaves untouched\<close>

text \<open>
  Reading keeps the store, allocation touches only the next free address, and a write
  in place is harmless for the objects below \<open>n\<close> when its target is not below
  \<open>n\<close>. The rules below carry this through sequencing and both kinds of loop, and then
  through every function of the program: the only writes in place go to the mask that
  \<^verbatim>\<open>heat_sink_mask\<close> has just allocated and to the copies that \<^verbatim>\<open>nan_to_num\<close>
  has just returned.
\<close>

lemma keepsI:
  assumes "\<And>s r s'. n \<le> lim s \<Longrightarrow> f s = (r, s') \<Longrightarrow>
    lim s \<le> lim s' \<and> (\<forall>a<n. mem s' a = mem s a) \<and> (\<forall>v. r = Inr v \<longrightarrow> Q v)"
  shows "keeps n Q f"
  unfolding keeps_def using assms by (auto split: prod.splits)

lemma keepsD:
  assumes "keeps n Q f" "n \<le> lim s" "f s = (r, s')"
  shows "lim s \<le> lim s'" and "\<And>a. a < n \<Longrightarrow> mem s' a = mem s a" and "\<And>v. r = Inr v \<Longrightarrow> Q v"
  using assms unfolding keeps_def by (auto split: prod.splits)

lemma keeps_weaken: "keeps n P f \<Longrightarrow> (\<And>v. P v \<Longrightarrow> Q v) \<Longrightarrow> keeps n Q f"
  unfolding keeps_def by (fastforce split: prod.splits)

lemma keeps_returnS: "Q a \<Longrightarrow> keeps n Q (returnS a)"
  by (simp add: keeps_def returnS_def)

lemma keeps_liftE: "(\<And>v. r = Inr v \<Longrightarrow> Q v) \<Longrightarrow> keeps n Q (liftE r)"
  by (simp add: keeps_def liftE_def)

lemma keeps_liftE_any: "keeps n (\<lambda>_. True) (liftE r)"
  by (simp add: keeps_def liftE_def)

lemma keeps_thenS:
  assumes m: "keeps n P m" and f: "\<And>a. P a \<Longrightarrow> keeps n Q (f a)"
  shows "keeps n Q (thenS m f)"
proof (rule keepsI)
  fix s r s'
  assume n: "n \<le> lim s" and t: "thenS m f s = (r, s')"
  obtain r1 s1 where m1: "m s = (r1, s1)" by (cases "m s") auto
  note k1 = keepsD [OF m n m1]
  show "lim s \<le> lim s' \<and> (\<forall>a<n. mem s' a = mem s a) \<and> (\<forall>v. r = Inr v \<longrightarrow> Q v)"
  proof (cases r1)
    case (Inl e)
    with t m1 have "r = Inl e" "s' = s1" by (simp_all add: thenS_def)
    with k1 show ?thesis by simp
  next
    case (Inr a)
    with t m1 have fa: "f a s1 = (r, s')" by (simp add: thenS_def)
    from k1(3) [OF Inr] have "keeps n Q (f a)" by (rule f)
    moreover from n k1(1) have "n \<le> lim s1" by simp
    ultimately have k2: "lim s1 \<le> lim s'" "\<And>a. a < n \<Longrightarrow> mem s' a = mem s1 a"
      "\<And>v. r = Inr v \<Longrightarrow> Q v"
      using fa by (auto dest: keepsD)
    with k1 show ?thesis by simp
  qed
qed

lemma keeps_new_array: "keeps n (\<lambda>a. n \<le> a) (new_array v)"
  by (simp add: keeps_def new_array_def)

lemma keeps_put: "n \<le> a \<Longrightarrow> keeps n (\<lambda>_. True) (put a v)"
  by (simp add: keeps_def put_def)

lemma keeps_get:
  "keeps n (\<lambda>_. True) (get_coords a)" "keeps n (\<lambda>_. True) (get_field a)"
  "keeps n (\<lambda>_. True) (get_rgrid a)" "keeps n (\<lambda>_. True) (get_vgrid a)"
  "keeps n (\<lambda>_. True) (get_mask a)"
  by (auto simp: keeps_def get_coords_def get_field_def get_rgrid_def get_vgrid_def
      get_mask_def split: option.splits ndarray.splits)

lemma keeps_mapS:
  assumes "\<And>x. x \<in> set xs \<Longrightarrow> keeps n Q (f x)"
  shows "keeps n (list_all Q) (mapS f xs)"
  using assms
proof (induction xs)
  case Nil
  then show ?case by (simp add: keeps_returnS)
next
  case (Cons x xs)
  have 1: "keeps n Q (f x)" using Cons.prems by simp
  have 2: "keeps n (list_all Q) (mapS f xs)" using Cons by simp
  show ?case
    unfolding mapS.simps
    by (rule keeps_thenS [OF 1], rule keeps_thenS [OF 2], rule keeps_returnS) simp
qed

lemma keeps_forS:
  assumes "\<And>x. x \<in> set xs \<Longrightarrow> keeps n (\<lambda>_. True) (f x)"
  shows "keeps n (\<lambda>_. True) (forS f xs)"
  using assms
proof (induction xs)
  case Nil
  then show ?case by (simp add: keeps_returnS)
next
  case (Cons x xs)
  have 1: "keeps n (\<lambda>_. True) (f x)" using Cons.prems by simp
  have 2: "keeps n (\<lambda>_. True) (forS f xs)" using Cons by simp
  show ?case
    unfolding forS.simps by (rule keeps_thenS [OF 1]) (rule 2)
qed

lemma keeps_fin_pass_st: "n \<le> m \<Longrightarrow> keeps n (\<lambda>_. True) (fin_pass_st xi yi m j)"
  unfolding fin_pass_st_def
  by (intro keeps_thenS [OF keeps_get(3)] keeps_thenS [OF keeps_get(5)] keeps_put)

lemma keeps_heat_sink_mask_st: "keeps n (\<lambda>a. n \<le> a) (heat_sink_mask_st xi yi)"
  unfolding heat_sink_mask_st_def
  by (intro keeps_thenS [OF keeps_get(3)] keeps_thenS [OF keeps_new_array]
      keeps_thenS [OF keeps_forS] keeps_fin_pass_st keeps_returnS)

lemma keeps_griddata_st: "keeps n (\<lambda>a. n \<le> a) (griddata_st lin x y v xi yi)"
  unfolding griddata_st_def
  by (intro keeps_thenS [OF keeps_get(1)] keeps_thenS [OF keeps_get(2)]
      keeps_thenS [OF keeps_get(3)] keeps_thenS [OF keeps_liftE_any] keeps_new_array)

lemma keeps_nan_to_num_st: "keeps n (\<lambda>a. n \<le> a) (nan_to_num_st v)"
  unfolding nan_to_num_st_def
  by (intro keeps_thenS [OF keeps_get(4)] keeps_new_array)

lemma keeps_set_masked_st: "n \<le> a \<Longrightarrow> keeps n (\<lambda>_. True) (set_masked_st a m)"
  unfolding set_masked_st_def
  by (intro keeps_thenS [OF keeps_get(4)] keeps_thenS [OF keeps_get(5)]
      keeps_thenS [OF keeps_liftE_any] keeps_put)

lemma keeps_interpolate_output_st:
  "keeps n (list_all (\<lambda>a. n \<le> a)) (interpolate_output_st lin x y vs extent)"
proof -
  have g: "keeps n (list_all (\<lambda>a. n \<le> a)) (mapS (\<lambda>value. griddata_st lin x y value xi yi) vs)"
    for xi yi
    by (rule keeps_mapS) (rule keeps_griddata_st)
  have c: "keeps n (list_all (\<lambda>a. n \<le> a)) (mapS nan_to_num_st ivs0)" for ivs0
    by (rule keeps_mapS) (rule keeps_nan_to_num_st)
  have f: "keeps n (list_all (\<lambda>a. n \<le> a))
     (thenS (forS (\<lambda>i. set_masked_st (ivs ! i) m) [0..<length ivs]) (\<lambda>_. returnS ivs))"
    if l: "list_all (\<lambda>a. n \<le> a) ivs" for ivs m
  proof -
    have "keeps n (\<lambda>_. True) (forS (\<lambda>i. set_masked_st (ivs ! i) m) [0..<length ivs])"
    proof (rule keeps_forS)
      fix i assume "i \<in> set [0..<length ivs]"
      with l have "n \<le> ivs ! i" by (simp add: list_all_length)
      then show "keeps n (\<lambda>_. True) (set_masked_st (ivs ! i) m)" by (rule keeps_set_masked_st)
    qed
    then show ?thesis
      by (rule keeps_thenS) (simp add: keeps_def returnS_def l)
  qed
  show ?thesis
    unfolding interpolate_output_st_def
    by (rule keeps_thenS [OF keeps_new_array], rule keeps_thenS [OF keeps_new_array],
        rule keeps_thenS [OF keeps_heat_sink_mask_st], rule keeps_thenS [OF g],
        rule keeps_thenS [OF c], rule f)
qed

lemma keeps_scale_st: "keeps n (\<lambda>a. n \<le> a) (scale_st a c)"
  unfolding scale_st_def by (intro keeps_thenS [OF keeps_get(2)] keeps_new_array)

lemma keeps_sub_st: "keeps n (\<lambda>a. n \<le> a) (sub_st a b)"
  unfolding sub_st_def by (intro keeps_thenS [OF keeps_get(4)] keeps_new_array)

lemma keeps_draw_st: "keeps n (\<lambda>_. True) (draw_st extent data i)"
  unfolding draw_st_def Let_def
  by (intro keeps_thenS [OF keeps_liftE_any] keeps_thenS [OF keeps_get(4)] keeps_returnS) simp

lemma keeps_plot_st: "keeps n (\<lambda>_. True) (plot_st extent ivs)"
proof (cases "\<exists>a0 a1 a2 a3 a4 a5 a6 a7 a8 a9. ivs = [a0, a1, a2, a3, a4, a5, a6, a7, a8, a9]")
  case True
  then obtain a0 a1 a2 a3 a4 a5 a6 a7 a8 a9
    where i: "ivs = [a0, a1, a2, a3, a4, a5, a6, a7, a8, a9]" by blast
  have d: "keeps n (list_all (\<lambda>_. True)) (mapS (draw_st extent data) [0..<15])" for data
    by (rule keeps_mapS) (rule keeps_draw_st)
  have r: "keeps n (\<lambda>_. True) (returnS v)" for v :: "(figure \<times> string) list"
    by (simp add: keeps_def returnS_def)
  show ?thesis
    unfolding plot_st_def Let_def i list.case
    by (rule keeps_thenS [OF keeps_sub_st], rule keeps_thenS [OF keeps_sub_st],
        rule keeps_thenS [OF keeps_sub_st], rule keeps_thenS [OF keeps_sub_st],
        rule keeps_thenS [OF keeps_sub_st], rule keeps_thenS [OF d], rule r)
next
  case False
  then have "plot_st extent ivs = liftE (Inl ValueError)"
    unfolding plot_st_def by (auto split: list.splits)
  then show ?thesis by (simp add: keeps_liftE_any)
qed

lemma keeps_call_st: "keeps n (\<lambda>_. True) (call_st lin invar true_outvar pred_outvar)"
  unfolding call_st_def Let_def
  by (intro keeps_thenS [OF keeps_liftE_any] keeps_thenS [OF keeps_get(1)]
      keeps_thenS [OF keeps_scale_st] keeps_thenS [OF keeps_interpolate_output_st]
      keeps_plot_st)

lemma call_st_frame:
  "lim s \<le> lim (snd (call_st lin invar true_outvar pred_outvar s)) \<and>
   (\<forall>a<lim s. mem (snd (call_st lin invar true_outvar pred_outvar s)) a = mem s a)"
proof -
  obtain r s' where c: "call_st lin invar true_outvar pred_outvar s = (r, s')"
    by (cases "call_st lin invar true_outvar pred_outvar s") auto
  from keepsD(1,2) [OF keeps_call_st order_refl c] c show ?thesis by simp
qed

subsection \<open>The store program computes what the by-value program computes\<close>

text \<open>
  The two models of the program agree: run from a store that satisfies \<open>inputs_ok\<close>,
  the call over the store returns the figure, or raises the error, that the by-value call
  returns on the arrays the three mappings hold (\<open>call_st_link\<close> at the end of this
  subsection). The steps are run one after the other on explicit stores.
\<close>

lemma thenS_Inr: "m s = (Inr a, s') \<Longrightarrow> thenS m f s = f a s'"
  by (simp add: thenS_def)

lemma thenS_Inl: "m s = (Inl e, s') \<Longrightarrow> thenS m f s = (Inl e, s')"
  by (simp add: thenS_def)

lemma thenS_liftE: "thenS (liftE r) f s = (case r of Inl e \<Rightarrow> (Inl e, s) | Inr a \<Rightarrow> f a s)"
  by (simp add: thenS_def liftE_def split: sum.splits)

lemma get_apply:
  "mem s a = Some (Coords xs) \<Longrightarrow> get_coords a s = (Inr xs, s)"
  "mem s a = Some (Field v) \<Longrightarrow> get_field a s = (Inr v, s)"
  "mem s a = Some (RGrid g) \<Longrightarrow> get_rgrid a s = (Inr g, s)"
  "mem s a = Some (VGrid vg) \<Longrightarrow> get_vgrid a s = (Inr vg, s)"
  "mem s a = Some (BGrid m) \<Longrightarrow> get_mask a s = (Inr m, s)"
  by (simp_all add: get_coords_def get_field_def get_rgrid_def get_vgrid_def get_mask_def)

text \<open>A loop that allocates one new object for each element.\<close>

lemma mapS_alloc:
  assumes "\<And>v s'. v \<in> set vs \<Longrightarrow> lim s \<le> lim s' \<Longrightarrow> (\<forall>a<lim s. mem s' a = mem s a) \<Longrightarrow>
    f v s' = thenS (liftE (F v)) (\<lambda>g. new_array (G g)) s'"
  shows "case comprehension F vs of
      Inl e \<Rightarrow> fst (mapS f vs s) = Inl e
    | Inr gs \<Rightarrow> (\<exists>s'. mapS f vs s = (Inr [lim s..<lim s + length vs], s') \<and>
        lim s' = lim s + length vs \<and> (\<forall>a<lim s. mem s' a = mem s a) \<and>
        (\<forall>k<length vs. mem s' (lim s + k) = Some (G (gs ! k))))"
  using assms
proof (induction vs arbitrary: s)
  case Nil
  then show ?case by (simp add: returnS_def)
next
  case (Cons v vs)
  have fv: "f v s = thenS (liftE (F v)) (\<lambda>g. new_array (G g)) s"
    by (rule Cons.prems) simp_all
  show ?case
  proof (cases "F v")
    case (Inl e)
    with fv have "f v s = (Inl e, s)" by (simp add: thenS_liftE)
    then have "mapS f (v # vs) s = (Inl e, s)" by (simp add: thenS_Inl)
    with Inl show ?thesis by simp
  next
    case (Inr g)
    let ?s1 = "s\<lparr>mem := (mem s)(lim s \<mapsto> G g), lim := Suc (lim s)\<rparr>"
    have a: "thenS (liftE (F v)) (\<lambda>g. new_array (G g)) s = new_array (G g) s"
      by (simp add: thenS_liftE Inr)
    have b: "new_array (G g) s = (Inr (lim s), ?s1)"
      by (simp add: new_array_def)
    have f1: "f v s = (Inr (lim s), ?s1)"
      by (rule trans [OF fv trans [OF a b]])
    have step: "f w s' = thenS (liftE (F w)) (\<lambda>g. new_array (G g)) s'"
      if "w \<in> set vs" "lim ?s1 \<le> lim s'" "\<forall>a<lim ?s1. mem s' a = mem ?s1 a" for w s'
    proof (rule Cons.prems)
      show "w \<in> set (v # vs)" using that(1) by simp
      show "lim s \<le> lim s'" using that(2) by simp
      show "\<forall>a<lim s. mem s' a = mem s a" using that(3) by simp
    qed
    have ih: "case comprehension F vs of
        Inl e \<Rightarrow> fst (mapS f vs ?s1) = Inl e
      | Inr gs \<Rightarrow> (\<exists>s'. mapS f vs ?s1 = (Inr [lim ?s1..<lim ?s1 + length vs], s') \<and>
          lim s' = lim ?s1 + length vs \<and> (\<forall>a<lim ?s1. mem s' a = mem ?s1 a) \<and>
          (\<forall>k<length vs. mem s' (lim ?s1 + k) = Some (G (gs ! k))))"
      by (rule Cons.IH) (rule step)
    show ?thesis
    proof (cases "comprehension F vs")
      case (Inl e)
      with ih have "fst (mapS f vs ?s1) = Inl e" by simp
      then obtain s2 where "mapS f vs ?s1 = (Inl e, s2)" by (cases "mapS f vs ?s1") auto
      with f1 have "mapS f (v # vs) s = (Inl e, s2)"
        by (simp add: thenS_Inr thenS_Inl)
      with Inl Inr show ?thesis by simp
    next
      case r: (Inr gs)
      with ih obtain s' where m: "mapS f vs ?s1 = (Inr [lim ?s1..<lim ?s1 + length vs], s')"
        and l: "lim s' = lim ?s1 + length vs"
        and fr: "\<forall>a<lim ?s1. mem s' a = mem ?s1 a"
        and c: "\<forall>k<length vs. mem s' (lim ?s1 + k) = Some (G (gs ! k))"
        by auto
      have u: "[lim s..<lim s + length (v # vs)] = lim s # [lim ?s1..<lim ?s1 + length vs]"
      proof -
        have "lim s < lim s + length (v # vs)" by simp
        then have "[lim s..<lim s + length (v # vs)]
            = lim s # [Suc (lim s)..<lim s + length (v # vs)]"
          by (rule upt_conv_Cons)
        moreover have "lim s + length (v # vs) = lim ?s1 + length vs" by simp
        moreover have "Suc (lim s) = lim ?s1" by simp
        ultimately show ?thesis by (simp only:)
      qed
      have 1: "mapS f (v # vs) s = (Inr [lim s..<lim s + length (v # vs)], s')"
        unfolding u using f1 m by (simp add: thenS_Inr returnS_def)
      have 2: "lim s' = lim s + length (v # vs)" using l by simp
      have 3: "\<forall>a<lim s. mem s' a = mem s a" using fr by simp
      have 4: "mem s' (lim s + k) = Some (G ((g # gs) ! k))" if "k < length (v # vs)" for k
      proof (cases k)
        case 0
        with fr show ?thesis by simp
      next
        case (Suc k')
        with that c [rule_format, of k'] show ?thesis by simp
      qed
      from 1 2 3 4 r Inr show ?thesis by simp
    qed
  qed
qed

lemma put_apply: "put a v s = (Inr (), s\<lparr>mem := (mem s)(a \<mapsto> v)\<rparr>)"
  by (simp add: put_def)

lemma new_array_apply:
  "new_array v s = (Inr (lim s), s\<lparr>mem := (mem s)(lim s \<mapsto> v), lim := Suc (lim s)\<rparr>)"
  by (simp add: new_array_def)

lemma thenS_run: "m s = (Inr a, s1) \<Longrightarrow> f a s1 = r \<Longrightarrow> thenS m f s = r"
  by (simp add: thenS_def)

lemma fin_pass_st_run:
  assumes "mem s xi = Some (RGrid gx)" "mem s yi = Some (RGrid gy)" "mem s m = Some (BGrid m0)"
  shows "fin_pass_st xi yi m j s
    = (Inr (), s\<lparr>mem := (mem s)(m \<mapsto> BGrid (fin_pass hard_coded gx gy m0 j))\<rparr>)"
proof -
  have 1: "get_rgrid xi s = (Inr gx, s)" using assms(1) by (rule get_apply)
  have 2: "get_rgrid yi s = (Inr gy, s)" using assms(2) by (rule get_apply)
  have 3: "get_mask m s = (Inr m0, s)" using assms(3) by (rule get_apply)
  show ?thesis
    unfolding fin_pass_st_def by (simp add: thenS_def 1 2 3 put_apply)
qed

lemma forS_fin_pass_st:
  assumes "mem s xi = Some (RGrid gx)" "mem s yi = Some (RGrid gy)" "mem s m = Some (BGrid m0)"
    "m \<noteq> xi" "m \<noteq> yi"
  shows "forS (fin_pass_st xi yi m) js s
    = (Inr (), s\<lparr>mem := (mem s)(m \<mapsto> BGrid (foldl (fin_pass hard_coded gx gy) m0 js))\<rparr>)"
  using assms(1-3)
proof (induction js arbitrary: s m0)
  case Nil
  then have "(mem s)(m \<mapsto> BGrid m0) = mem s" by (simp add: map_upd_triv)
  then show ?case by (simp add: returnS_def)
next
  case (Cons j js)
  let ?s1 = "s\<lparr>mem := (mem s)(m \<mapsto> BGrid (fin_pass hard_coded gx gy m0 j))\<rparr>"
  have 1: "fin_pass_st xi yi m j s = (Inr (), ?s1)"
    using Cons.prems by (rule fin_pass_st_run)
  have "forS (fin_pass_st xi yi m) js ?s1
    = (Inr (), ?s1\<lparr>mem := (mem ?s1)(m \<mapsto>
         BGrid (foldl (fin_pass hard_coded gx gy) (fin_pass hard_coded gx gy m0 j) js))\<rparr>)"
    using Cons.prems assms(4,5) by (intro Cons.IH) simp_all
  moreover have "?s1\<lparr>mem := (mem ?s1)(m \<mapsto>
         BGrid (foldl (fin_pass hard_coded gx gy) (fin_pass hard_coded gx gy m0 j) js))\<rparr>
    = s\<lparr>mem := (mem s)(m \<mapsto> BGrid (foldl (fin_pass hard_coded gx gy) m0 (j # js)))\<rparr>"
    by simp
  ultimately have "forS (fin_pass_st xi yi m) js ?s1
    = (Inr (), s\<lparr>mem := (mem s)(m \<mapsto> BGrid (foldl (fin_pass hard_coded gx gy) m0 (j # js)))\<rparr>)"
    by (simp only:)
  moreover have "forS (fin_pass_st xi yi m) (j # js) s = forS (fin_pass_st xi yi m) js ?s1"
    by (simp add: thenS_def 1)
  ultimately show ?case by (simp only:)
qed

lemma heat_sink_mask_st_run:
  assumes "mem s xi = Some (RGrid gx)" "mem s yi = Some (RGrid gy)" "xi < lim s" "yi < lim s"
  shows "heat_sink_mask_st xi yi s
    = (Inr (lim s),
       s\<lparr>mem := (mem s)(lim s \<mapsto> BGrid (heat_sink_mask gx gy)), lim := Suc (lim s)\<rparr>)"
proof -
  let ?s1 = "s\<lparr>mem := (mem s)(lim s \<mapsto> BGrid (zeros_like gx)), lim := Suc (lim s)\<rparr>"
  have 1: "get_rgrid xi s = (Inr gx, s)" using assms(1) by (rule get_apply)
  have 2: "new_array (BGrid (zeros_like gx)) s = (Inr (lim s), ?s1)" by (rule new_array_apply)
  have 3: "forS (fin_pass_st xi yi (lim s)) (py_range (nr_fins hard_coded)) ?s1
    = (Inr (), ?s1\<lparr>mem := (mem ?s1)(lim s \<mapsto>
         BGrid (foldl (fin_pass hard_coded gx gy) (zeros_like gx)
           (py_range (nr_fins hard_coded))))\<rparr>)"
    using assms by (intro forS_fin_pass_st) simp_all
  show ?thesis
    unfolding heat_sink_mask_st_def
    by (rule thenS_run, rule 1, rule thenS_run, rule 2, rule thenS_run, rule 3)
      (simp add: returnS_def heat_sink_mask_def heat_sink_mask_with_def)
qed

lemma set_masked_st_run:
  assumes "mem s a = Some (VGrid g)" "mem s m = Some (BGrid bm)"
  shows "set_masked_st a m s
    = (case set_masked g bm of Inl e \<Rightarrow> (Inl e, s)
       | Inr g' \<Rightarrow> (Inr (), s\<lparr>mem := (mem s)(a \<mapsto> VGrid g')\<rparr>))"
proof -
  have 1: "get_vgrid a s = (Inr g, s)" using assms(1) by (rule get_apply)
  have 2: "get_mask m s = (Inr bm, s)" using assms(2) by (rule get_apply)
  show ?thesis
    unfolding set_masked_st_def
    by (simp add: thenS_def 1 2 liftE_def put_apply split: sum.splits)
qed

lemma forS_set_masked_st:
  assumes "distinct as" "m \<notin> set as" "mem s m = Some (BGrid bm)"
    "length gs = length as" "\<forall>k<length as. mem s (as ! k) = Some (VGrid (gs ! k))"
    "\<forall>i\<in>set is. i < length as"
  shows "case mask_loop gs bm is of
      Inl e \<Rightarrow> fst (forS (\<lambda>i. set_masked_st (as ! i) m) is s) = Inl e
    | Inr gs' \<Rightarrow> (\<exists>s'. forS (\<lambda>i. set_masked_st (as ! i) m) is s = (Inr (), s') \<and>
        lim s' = lim s \<and> length gs' = length as \<and>
        (\<forall>k<length as. mem s' (as ! k) = Some (VGrid (gs' ! k))))"
  using assms(3-6)
proof (induction "is" arbitrary: s gs)
  case Nil
  then show ?case by (simp add: returnS_def)
next
  case (Cons i "is")
  from Cons.prems have i: "i < length as" by simp
  with Cons.prems have a: "mem s (as ! i) = Some (VGrid (gs ! i))" by simp
  note run = set_masked_st_run [OF a Cons.prems(1)]
  show ?case
  proof (cases "set_masked (gs ! i) bm")
    case (Inl e)
    with run have "set_masked_st (as ! i) m s = (Inl e, s)" by simp
    then have "forS (\<lambda>i. set_masked_st (as ! i) m) (i # is) s = (Inl e, s)"
      by (simp add: thenS_def)
    with Inl show ?thesis by simp
  next
    case (Inr g')
    let ?s1 = "s\<lparr>mem := (mem s)(as ! i \<mapsto> VGrid g')\<rparr>"
    from run Inr have r1: "set_masked_st (as ! i) m s = (Inr (), ?s1)" by simp
    have m1: "mem ?s1 m = Some (BGrid bm)"
      using Cons.prems(1) assms(2) i by (auto simp: in_set_conv_nth)
    have l1: "length (gs[i := g']) = length as" using Cons.prems(2) by simp
    have c1: "\<forall>k<length as. mem ?s1 (as ! k) = Some (VGrid (gs[i := g'] ! k))"
    proof (intro allI impI)
      fix k assume k: "k < length as"
      show "mem ?s1 (as ! k) = Some (VGrid (gs[i := g'] ! k))"
      proof (cases "k = i")
        case True
        with i Cons.prems(2) show ?thesis by simp
      next
        case False
        with assms(1) i k have "as ! k \<noteq> as ! i" by (simp add: nth_eq_iff_index_eq)
        with False Cons.prems(3) k show ?thesis by simp
      qed
    qed
    have i1: "\<forall>i\<in>set is. i < length as" using Cons.prems(4) by simp
    have ih: "case mask_loop (gs[i := g']) bm is of
        Inl e \<Rightarrow> fst (forS (\<lambda>i. set_masked_st (as ! i) m) is ?s1) = Inl e
      | Inr gs' \<Rightarrow> (\<exists>s'. forS (\<lambda>i. set_masked_st (as ! i) m) is ?s1 = (Inr (), s') \<and>
          lim s' = lim ?s1 \<and> length gs' = length as \<and>
          (\<forall>k<length as. mem s' (as ! k) = Some (VGrid (gs' ! k))))"
      using m1 l1 c1 i1 by (rule Cons.IH)
    have f: "forS (\<lambda>i. set_masked_st (as ! i) m) (i # is) s
        = forS (\<lambda>i. set_masked_st (as ! i) m) is ?s1"
      using r1 by (simp add: thenS_def)
    have p: "mask_loop gs bm (i # is) = mask_loop (gs[i := g']) bm is"
      using Inr by simp
    from ih show ?thesis unfolding f p by (simp split: sum.splits)
  qed
qed

lemma thenS_fst_Inl: "fst (m s) = Inl e \<Longrightarrow> fst (thenS m f s) = Inl e"
  by (cases "m s") (simp add: thenS_def)

lemma mapS_alloc_Inl:
  assumes "\<And>v s'. v \<in> set vs \<Longrightarrow> lim s \<le> lim s' \<Longrightarrow> (\<forall>a<lim s. mem s' a = mem s a) \<Longrightarrow>
    f v s' = thenS (liftE (F v)) (\<lambda>g. new_array (G g)) s'"
    and "comprehension F vs = Inl e"
  shows "fst (mapS f vs s) = Inl e"
proof -
  have "case comprehension F vs of
      Inl e \<Rightarrow> fst (mapS f vs s) = Inl e
    | Inr gs \<Rightarrow> (\<exists>s'. mapS f vs s = (Inr [lim s..<lim s + length vs], s') \<and>
        lim s' = lim s + length vs \<and> (\<forall>a<lim s. mem s' a = mem s a) \<and>
        (\<forall>k<length vs. mem s' (lim s + k) = Some (G (gs ! k))))"
    by (rule mapS_alloc) (rule assms(1))
  with assms(2) show ?thesis by simp
qed

lemma mapS_alloc_Inr:
  assumes "\<And>v s'. v \<in> set vs \<Longrightarrow> lim s \<le> lim s' \<Longrightarrow> (\<forall>a<lim s. mem s' a = mem s a) \<Longrightarrow>
    f v s' = thenS (liftE (F v)) (\<lambda>g. new_array (G g)) s'"
    and "comprehension F vs = Inr gs"
  shows "\<exists>s'. mapS f vs s = (Inr [lim s..<lim s + length vs], s') \<and>
        lim s' = lim s + length vs \<and> (\<forall>a<lim s. mem s' a = mem s a) \<and>
        (\<forall>k<length vs. mem s' (lim s + k) = Some (G (gs ! k)))"
proof -
  have "case comprehension F vs of
      Inl e \<Rightarrow> fst (mapS f vs s) = Inl e
    | Inr gs \<Rightarrow> (\<exists>s'. mapS f vs s = (Inr [lim s..<lim s + length vs], s') \<and>
        lim s' = lim s + length vs \<and> (\<forall>a<lim s. mem s' a = mem s a) \<and>
        (\<forall>k<length vs. mem s' (lim s + k) = Some (G (gs ! k))))"
    by (rule mapS_alloc) (rule assms(1))
  with assms(2) show ?thesis by simp
qed

lemma comprehension_map: "comprehension f (map g xs) = comprehension (\<lambda>x. f (g x)) xs"
  by (induction xs) simp_all

lemma comprehension_cong:
  "(\<And>x. x \<in> set xs \<Longrightarrow> f x = g x) \<Longrightarrow> comprehension f xs = comprehension g xs"
  by (induction xs) simp_all

lemma comprehension_length: "comprehension f xs = Inr ys \<Longrightarrow> length ys = length xs"
  by (simp add: comprehension_Inr list_all2_lengthD)

lemma griddata_st_run:
  assumes "mem s x = Some (Coords cx)" "mem s y = Some (Coords cy)" "mem s a = Some (Field f)"
    "mem s xi = Some (RGrid gx)" "mem s yi = Some (RGrid gy)"
  shows "griddata_st lin x y a xi yi s
    = thenS (liftE (griddata lin cx cy f gx gy)) (\<lambda>g. new_array (VGrid g)) s"
  unfolding griddata_st_def
  by (rule thenS_run, rule get_apply(1) [OF assms(1)], rule thenS_run,
      rule get_apply(1) [OF assms(2)], rule thenS_run, rule get_apply(2) [OF assms(3)],
      rule thenS_run, rule get_apply(3) [OF assms(4)], rule thenS_run,
      rule get_apply(3) [OF assms(5)], rule refl)

lemma nan_to_num_st_run:
  assumes "mem s a = Some (VGrid g)"
  shows "nan_to_num_st a s = thenS (liftE (Inr (nan_to_num g))) (\<lambda>g. new_array (VGrid g)) s"
  unfolding nan_to_num_st_def
  by (rule thenS_run, rule get_apply(4) [OF assms]) (simp add: thenS_liftE)

lemma interpolate_output_st_link:
  assumes x: "mem s x = Some (Coords cx)" "x < lim s"
    and y: "mem s y = Some (Coords cy)" "y < lim s"
    and v: "list_all2 (\<lambda>a f. a < lim s \<and> mem s a = Some (Field f)) vs fvs"
  shows "(\<forall>e. interpolate_output lin cx cy fvs extent = Inl e \<longrightarrow>
            fst (interpolate_output_st lin x y vs extent s) = Inl e) \<and>
         (\<forall>gs. interpolate_output lin cx cy fvs extent = Inr gs \<longrightarrow>
            (\<exists>as s'. interpolate_output_st lin x y vs extent s = (Inr as, s') \<and>
               lim s \<le> lim s' \<and>
               list_all2 (\<lambda>a g. a < lim s' \<and> mem s' a = Some (VGrid g)) as gs))"
proof -
  obtain gx gy where m: "mesh extent = (gx, gy)" by (cases "mesh extent") auto
  define bm where "bm = heat_sink_mask gx gy"
  define s1 where "s1 = s\<lparr>mem := (mem s)(lim s \<mapsto> RGrid gx), lim := Suc (lim s)\<rparr>"
  define s2 where "s2 = s1\<lparr>mem := (mem s1)(lim s1 \<mapsto> RGrid gy), lim := Suc (lim s1)\<rparr>"
  define s3 where "s3 = s2\<lparr>mem := (mem s2)(lim s2 \<mapsto> BGrid bm), lim := Suc (lim s2)\<rparr>"
  define xi where "xi = lim s"
  define yi where "yi = Suc (lim s)"
  define ma where "ma = Suc (Suc (lim s))"
  have n1: "new_array (RGrid (fst (mesh extent))) s = (Inr xi, s1)"
    by (simp add: new_array_apply s1_def m xi_def)
  have n2: "new_array (RGrid (snd (mesh extent))) s1 = (Inr yi, s2)"
    by (simp add: new_array_apply s2_def s1_def m yi_def)
  have l2: "lim s2 = ma" by (simp add: s2_def s1_def ma_def)
  have "heat_sink_mask_st xi yi s2
      = (Inr (lim s2), s2\<lparr>mem := (mem s2)(lim s2 \<mapsto> BGrid (heat_sink_mask gx gy)),
           lim := Suc (lim s2)\<rparr>)"
    by (rule heat_sink_mask_st_run) (simp_all add: s2_def s1_def xi_def yi_def)
  then have h: "heat_sink_mask_st xi yi s2 = (Inr ma, s3)"
    by (simp add: s3_def bm_def l2)
  have l3: "lim s3 = lim s + 3" by (simp add: s3_def s2_def s1_def)
  have f3: "mem s3 a = mem s a" if "a < lim s" for a
    using that by (simp add: s3_def s2_def s1_def)
  have g3: "mem s3 xi = Some (RGrid gx)" "mem s3 yi = Some (RGrid gy)" "mem s3 ma = Some (BGrid bm)"
    by (simp_all add: s3_def s2_def s1_def xi_def yi_def ma_def)
  have a3: "xi < lim s3" "yi < lim s3" "ma < lim s3"
    by (simp_all add: l3 xi_def yi_def ma_def)
  let ?rest = "\<lambda>ivs0. thenS (mapS nan_to_num_st ivs0) (\<lambda>ivs.
      thenS (forS (\<lambda>i. set_masked_st (ivs ! i) ma) [0..<length ivs]) (\<lambda>_. returnS ivs))"
  have e1: "interpolate_output_st lin x y vs extent s
      = thenS (mapS (\<lambda>value. griddata_st lin x y value xi yi) vs) ?rest s3"
    unfolding interpolate_output_st_def
    by (rule thenS_run, rule n1, rule thenS_run, rule n2, rule thenS_run, rule h, rule refl)
  have p1: "interpolate_output lin cx cy fvs extent
      = thenE (comprehension (\<lambda>value. griddata lin cx cy value gx gy) fvs)
          (\<lambda>ivs. mask_loop (map nan_to_num ivs) bm [0..<length ivs])"
    by (simp add: interpolate_output_def m Let_def bm_def)
  define F where "F a = (case mem s a of Some (Field f) \<Rightarrow> griddata lin cx cy f gx gy
      | _ \<Rightarrow> Inl TypeError)" for a
  have fvs: "fvs = map (\<lambda>a. case mem s a of Some (Field f) \<Rightarrow> f | _ \<Rightarrow> []) vs"
    using v by (induction rule: list_all2_induct) simp_all
  have va: "a < lim s \<and> (\<exists>f. mem s a = Some (Field f))" if "a \<in> set vs" for a
    using v that by (induction rule: list_all2_induct) auto
  have cF: "comprehension (\<lambda>value. griddata lin cx cy value gx gy) fvs = comprehension F vs"
    unfolding fvs comprehension_map
  proof (rule comprehension_cong)
    fix a assume "a \<in> set vs"
    from va [OF this] obtain f where "mem s a = Some (Field f)" by blast
    then show "griddata lin cx cy (case mem s a of Some (Field f) \<Rightarrow> f | _ \<Rightarrow> []) gx gy = F a"
      by (simp add: F_def)
  qed
  have stepG: "griddata_st lin x y a xi yi s' = thenS (liftE (F a)) (\<lambda>g. new_array (VGrid g)) s'"
    if "a \<in> set vs" "lim s3 \<le> lim s'" "\<forall>b<lim s3. mem s' b = mem s3 b" for a s'
  proof -
    from va [OF that(1)] obtain f where a: "a < lim s" "mem s a = Some (Field f)" by blast
    have r: "mem s' b = mem s b" if "b < lim s" for b
      using that \<open>\<forall>b<lim s3. mem s' b = mem s3 b\<close> f3 l3 by simp
    have "griddata_st lin x y a xi yi s'
      = thenS (liftE (griddata lin cx cy f gx gy)) (\<lambda>g. new_array (VGrid g)) s'"
      using that(3) a3 g3 x y a r by (intro griddata_st_run) simp_all
    then show ?thesis by (simp add: F_def a)
  qed
  show ?thesis
  proof (cases "comprehension F vs")
    case (Inl e)
    have "fst (mapS (\<lambda>value. griddata_st lin x y value xi yi) vs s3) = Inl e"
      using stepG Inl by (rule mapS_alloc_Inl)
    then have "fst (interpolate_output_st lin x y vs extent s) = Inl e"
      unfolding e1 by (rule thenS_fst_Inl)
    moreover have "interpolate_output lin cx cy fvs extent = Inl e"
      unfolding p1 cF Inl by simp
    ultimately show ?thesis by simp
  next
    case (Inr gs0)
    have n: "length gs0 = length vs" using Inr by (rule comprehension_length)
    have "\<exists>s'. mapS (\<lambda>value. griddata_st lin x y value xi yi) vs s3
          = (Inr [lim s3..<lim s3 + length vs], s') \<and>
        lim s' = lim s3 + length vs \<and> (\<forall>a<lim s3. mem s' a = mem s3 a) \<and>
        (\<forall>k<length vs. mem s' (lim s3 + k) = Some (VGrid (gs0 ! k)))"
      using stepG Inr by (rule mapS_alloc_Inr)
    then obtain s4 where
      m4: "mapS (\<lambda>value. griddata_st lin x y value xi yi) vs s3
          = (Inr [lim s3..<lim s3 + length vs], s4)"
      and l4: "lim s4 = lim s3 + length vs"
      and f4: "\<forall>a<lim s3. mem s4 a = mem s3 a"
      and c4: "\<forall>k<length vs. mem s4 (lim s3 + k) = Some (VGrid (gs0 ! k))"
      by blast
    let ?A0 = "[lim s3..<lim s3 + length vs]"
    define F2 where "F2 a = (Inr (nan_to_num (gs0 ! (a - lim s3))) :: error + vgrid)" for a
    have stepN: "nan_to_num_st a s' = thenS (liftE (F2 a)) (\<lambda>g. new_array (VGrid g)) s'"
      if "a \<in> set ?A0" "lim s4 \<le> lim s'" "\<forall>b<lim s4. mem s' b = mem s4 b" for a s'
    proof -
      from that(1) have k: "a - lim s3 < length vs" "a = lim s3 + (a - lim s3)" "a < lim s4"
        using l4 by auto
      with c4 have "mem s4 a = Some (VGrid (gs0 ! (a - lim s3)))" by metis
      with that(3) k(3) have "mem s' a = Some (VGrid (gs0 ! (a - lim s3)))" by simp
      then show ?thesis unfolding F2_def by (rule nan_to_num_st_run)
    qed
    have "comprehension F2 ?A0 = Inr (map (\<lambda>a. nan_to_num (gs0 ! (a - lim s3))) ?A0)"
      by (rule comprehension_total) (simp add: F2_def)
    also have "map (\<lambda>a. nan_to_num (gs0 ! (a - lim s3))) ?A0 = map nan_to_num gs0"
      using n by (intro nth_equalityI) simp_all
    finally have cN: "comprehension F2 ?A0 = Inr (map nan_to_num gs0)" .
    have "\<exists>s'. mapS nan_to_num_st ?A0 s4 = (Inr [lim s4..<lim s4 + length ?A0], s') \<and>
        lim s' = lim s4 + length ?A0 \<and> (\<forall>a<lim s4. mem s' a = mem s4 a) \<and>
        (\<forall>k<length ?A0. mem s' (lim s4 + k) = Some (VGrid (map nan_to_num gs0 ! k)))"
      using stepN cN by (rule mapS_alloc_Inr)
    then obtain s5 where
      m5: "mapS nan_to_num_st ?A0 s4 = (Inr [lim s4..<lim s4 + length vs], s5)"
      and l5: "lim s5 = lim s4 + length vs"
      and f5: "\<forall>a<lim s4. mem s5 a = mem s4 a"
      and c5: "\<forall>k<length vs. mem s5 (lim s4 + k) = Some (VGrid (map nan_to_num gs0 ! k))"
      by auto
    let ?A1 = "[lim s4..<lim s4 + length vs]"
    have e2: "interpolate_output_st lin x y vs extent s
      = thenS (forS (\<lambda>i. set_masked_st (?A1 ! i) ma) [0..<length ?A1]) (\<lambda>_. returnS ?A1) s5"
      unfolding e1 by (rule thenS_run, rule m4, rule thenS_run, rule m5, rule refl)
    have p2: "interpolate_output lin cx cy fvs extent
      = mask_loop (map nan_to_num gs0) bm [0..<length ?A1]"
      unfolding p1 cF Inr by (simp add: n)
    have ma5: "mem s5 ma = Some (BGrid bm)"
      using f5 f4 g3(3) a3(3) l4 by simp
    have pre: "distinct ?A1" "ma \<notin> set ?A1" "length (map nan_to_num gs0) = length ?A1"
      "\<forall>k<length ?A1. mem s5 (?A1 ! k) = Some (VGrid (map nan_to_num gs0 ! k))"
      "\<forall>i\<in>set [0..<length ?A1]. i < length ?A1"
      using a3(3) l4 n c5 by simp_all
    have loop: "case mask_loop (map nan_to_num gs0) bm [0..<length ?A1] of
        Inl e \<Rightarrow> fst (forS (\<lambda>i. set_masked_st (?A1 ! i) ma) [0..<length ?A1] s5) = Inl e
      | Inr gs' \<Rightarrow> (\<exists>s'. forS (\<lambda>i. set_masked_st (?A1 ! i) ma) [0..<length ?A1] s5
            = (Inr (), s') \<and>
          lim s' = lim s5 \<and> length gs' = length ?A1 \<and>
          (\<forall>k<length ?A1. mem s' (?A1 ! k) = Some (VGrid (gs' ! k))))"
      using pre(1,2) ma5 pre(3,4,5) by (rule forS_set_masked_st)
    show ?thesis
    proof (cases "mask_loop (map nan_to_num gs0) bm [0..<length ?A1]")
      case (Inl e)
      with loop have "fst (forS (\<lambda>i. set_masked_st (?A1 ! i) ma) [0..<length ?A1] s5) = Inl e"
        by simp
      then have "fst (interpolate_output_st lin x y vs extent s) = Inl e"
        unfolding e2 by (rule thenS_fst_Inl)
      with Inl p2 show ?thesis by simp
    next
      case r: (Inr gs')
      with loop obtain s6 where
        m6: "forS (\<lambda>i. set_masked_st (?A1 ! i) ma) [0..<length ?A1] s5 = (Inr (), s6)"
        and l6: "lim s6 = lim s5" and n6: "length gs' = length ?A1"
        and c6: "\<forall>k<length ?A1. mem s6 (?A1 ! k) = Some (VGrid (gs' ! k))"
        by auto
      have "interpolate_output_st lin x y vs extent s = (Inr ?A1, s6)"
        unfolding e2 by (rule thenS_run, rule m6) (simp add: returnS_def)
      moreover have "lim s \<le> lim s6" using l6 l5 l4 l3 by simp
      moreover have "list_all2 (\<lambda>a g. a < lim s6 \<and> mem s6 a = Some (VGrid g)) ?A1 gs'"
        using n6 c6 l6 l5 by (simp add: list_all2_conv_all_nth)
      ultimately show ?thesis using r p2 by auto
    qed
  qed
qed

lemma sub_st_run:
  assumes "mem s a = Some (VGrid ga)" "mem s b = Some (VGrid gb)"
  shows "sub_st a b s
    = (Inr (lim s), s\<lparr>mem := (mem s)(lim s \<mapsto> VGrid (np_sub ga gb)), lim := Suc (lim s)\<rparr>)"
  unfolding sub_st_def
  by (rule thenS_run, rule get_apply(4) [OF assms(1)], rule thenS_run,
      rule get_apply(4) [OF assms(2)], rule new_array_apply)

lemma draw_st_run:
  assumes "mem s (data ! i) = Some (VGrid (gdata ! i))"
  shows "draw_st extent data i s = (draw extent gdata i, s)"
proof -
  have g: "get_vgrid (data ! i) s = (Inr (gdata ! i), s)" using assms by (rule get_apply)
  show ?thesis
    unfolding draw_st_def draw_def Let_def
    by (simp add: thenS_def liftE_def thenE_def g returnS_def split: sum.splits)
qed

lemma mapS_draw_st:
  assumes "\<forall>i\<in>set is. mem s (data ! i) = Some (VGrid (gdata ! i))"
  shows "mapS (draw_st extent data) is s = (comprehension (draw extent gdata) is, s)"
  using assms
proof (induction "is")
  case Nil
  then show ?case by (simp add: returnS_def)
next
  case (Cons i "is")
  then have 1: "draw_st extent data i s = (draw extent gdata i, s)"
    and 2: "mapS (draw_st extent data) is s = (comprehension (draw extent gdata) is, s)"
    by (simp_all add: draw_st_run)
  show ?case
    by (simp add: thenS_def 1 2 thenE_def returnS_def split: sum.splits)
qed

lemma plot_st_link:
  assumes "list_all2 (\<lambda>a g. a < lim s \<and> mem s a = Some (VGrid g)) as gs"
  shows "fst (plot_st extent as s) = plot extent gs"
proof (cases "length as = 10")
  case False
  moreover from assms have "length gs = length as" by (simp add: list_all2_lengthD)
  ultimately have "plot extent gs = Inl ValueError" "plot_st extent as s = liftE (Inl ValueError) s"
    unfolding plot_def plot_st_def by (auto split: list.splits)
  then show ?thesis by (simp add: liftE_def)
next
  case True
  moreover from assms have "length gs = length as" by (simp add: list_all2_lengthD)
  ultimately obtain a0 a1 a2 a3 a4 a5 a6 a7 a8 a9 g0 g1 g2 g3 g4 g5 g6 g7 g8 g9
    where as: "as = [a0, a1, a2, a3, a4, a5, a6, a7, a8, a9]"
      and gs: "gs = [g0, g1, g2, g3, g4, g5, g6, g7, g8, g9]"
    by (metis list10)
  from assms have a:
    "a0 < lim s" "a1 < lim s" "a2 < lim s" "a3 < lim s" "a4 < lim s"
    "a5 < lim s" "a6 < lim s" "a7 < lim s" "a8 < lim s" "a9 < lim s"
    and c: "mem s a0 = Some (VGrid g0)" "mem s a1 = Some (VGrid g1)" "mem s a2 = Some (VGrid g2)"
    "mem s a3 = Some (VGrid g3)" "mem s a4 = Some (VGrid g4)" "mem s a5 = Some (VGrid g5)"
    "mem s a6 = Some (VGrid g6)" "mem s a7 = Some (VGrid g7)" "mem s a8 = Some (VGrid g8)"
    "mem s a9 = Some (VGrid g9)"
    unfolding as gs by simp_all
  define s1 where "s1 = s\<lparr>mem := (mem s)(lim s \<mapsto> VGrid (np_sub g0 g5)), lim := Suc (lim s)\<rparr>"
  define s2 where "s2 = s1\<lparr>mem := (mem s1)(lim s1 \<mapsto> VGrid (np_sub g1 g6)), lim := Suc (lim s1)\<rparr>"
  define s3 where "s3 = s2\<lparr>mem := (mem s2)(lim s2 \<mapsto> VGrid (np_sub g2 g7)), lim := Suc (lim s2)\<rparr>"
  define s4 where "s4 = s3\<lparr>mem := (mem s3)(lim s3 \<mapsto> VGrid (np_sub g3 g8)), lim := Suc (lim s3)\<rparr>"
  define s5 where "s5 = s4\<lparr>mem := (mem s4)(lim s4 \<mapsto> VGrid (np_sub g4 g9)), lim := Suc (lim s4)\<rparr>"
  have r1: "sub_st a0 a5 s = (Inr (lim s), s1)"
    unfolding s1_def using c by (intro sub_st_run)
  have r2: "sub_st a1 a6 s1 = (Inr (lim s1), s2)"
    unfolding s2_def using c a by (intro sub_st_run) (simp_all add: s1_def)
  have r3: "sub_st a2 a7 s2 = (Inr (lim s2), s3)"
    unfolding s3_def using c a by (intro sub_st_run) (simp_all add: s1_def s2_def)
  have r4: "sub_st a3 a8 s3 = (Inr (lim s3), s4)"
    unfolding s4_def using c a by (intro sub_st_run) (simp_all add: s1_def s2_def s3_def)
  have r5: "sub_st a4 a9 s4 = (Inr (lim s4), s5)"
    unfolding s5_def using c a by (intro sub_st_run) (simp_all add: s1_def s2_def s3_def s4_def)
  let ?data = "[a5, a0, lim s, a6, a1, lim s1, a7, a2, lim s2, a8, a3, lim s3, a9, a4, lim s4]"
  let ?gdata = "[g5, g0, np_sub g0 g5, g6, g1, np_sub g1 g6, g7, g2, np_sub g2 g7,
                 g8, g3, np_sub g3 g8, g9, g4, np_sub g4 g9]"
  have d: "\<forall>i\<in>set [0..<15]. mem s5 (?data ! i) = Some (VGrid (?gdata ! i))"
    unfolding upt_15 using a c by (simp add: s1_def s2_def s3_def s4_def s5_def)
  have m: "mapS (draw_st extent ?data) [0..<15] s5
      = (comprehension (draw extent ?gdata) [0..<15], s5)"
    using d by (rule mapS_draw_st)
  have "plot_st extent as s
      = thenS (mapS (draw_st extent ?data) [0..<15])
          (\<lambda>ps. returnS [(\<lparr> suptitle = ''Heat sink 2D: PINN vs True Solution'',
                           panels = ps \<rparr>, ''custom_plot'')]) s5"
    unfolding plot_st_def as list.case Let_def
    by (rule thenS_run, rule r1, rule thenS_run, rule r2, rule thenS_run, rule r3,
        rule thenS_run, rule r4, rule thenS_run, rule r5, rule refl)
  then have "fst (plot_st extent as s)
      = thenE (comprehension (draw extent ?gdata) [0..<15])
          (\<lambda>ps. Inr [(\<lparr> suptitle = ''Heat sink 2D: PINN vs True Solution'',
                           panels = ps \<rparr>, ''custom_plot'')])"
    by (simp add: thenS_def m thenE_def returnS_def split: sum.splits)
  then show ?thesis
    unfolding gs plot_def list.case Let_def by simp
qed

lemma link_getitem:
  assumes "\<And>a. d k = Some a \<Longrightarrow> d' k = Some (V a)" and "d k = None \<Longrightarrow> d' k = None"
    and "\<And>a. d k = Some a \<Longrightarrow> fst (f a s) = g (V a)"
  shows "fst (thenS (liftE (getitem d k)) f s) = thenE (getitem d' k) g"
  using assms by (cases "d k") (simp_all add: thenS_liftE getitem_def)

lemma link_liftE:
  assumes "\<And>a. r = Inr a \<Longrightarrow> fst (f a s) = g a"
  shows "fst (thenS (liftE r) f s) = thenE r g"
  using assms by (cases r) (simp_all add: thenS_liftE)

lemma link_get_coords:
  assumes "mem s a = Some (Coords xs)" and "fst (f xs s) = r"
  shows "fst (thenS (get_coords a) f s) = r"
  using assms by (simp add: thenS_def get_apply)

lemma link_scale_st:
  assumes "mem s a = Some (Field v)"
    and "fst (f (lim s) (s\<lparr>mem := (mem s)(lim s \<mapsto> Field (np_scale v c)), lim := Suc (lim s)\<rparr>)) = r"
  shows "fst (thenS (scale_st a c) f s) = r"
  using assms by (simp add: thenS_def scale_st_def get_apply new_array_apply)

lemma link_tail:
  assumes "mem s x = Some (Coords cx)" "x < lim s" "mem s y = Some (Coords cy)" "y < lim s"
    and "list_all2 (\<lambda>a f. a < lim s \<and> mem s a = Some (Field f)) vs fvs"
  shows "fst (thenS (interpolate_output_st lin x y vs extent) (plot_st extent) s)
    = thenE (interpolate_output lin cx cy fvs extent) (plot extent)"
proof -
  note l = interpolate_output_st_link [OF assms, of lin extent]
  show ?thesis
  proof (cases "interpolate_output lin cx cy fvs extent")
    case (Inl e)
    with l have "fst (interpolate_output_st lin x y vs extent s) = Inl e" by blast
    then have "fst (thenS (interpolate_output_st lin x y vs extent) (plot_st extent) s) = Inl e"
      by (rule thenS_fst_Inl)
    with Inl show ?thesis by simp
  next
    case (Inr gs)
    with l obtain as s' where r: "interpolate_output_st lin x y vs extent s = (Inr as, s')"
      and g: "list_all2 (\<lambda>a g. a < lim s' \<and> mem s' a = Some (VGrid g)) as gs"
      by blast
    have "thenS (interpolate_output_st lin x y vs extent) (plot_st extent) s = plot_st extent as s'"
      using r by (simp add: thenS_def)
    with plot_st_link [OF g, of extent] Inr show ?thesis by simp
  qed
qed

lemma call_st_link:
  assumes ok: "inputs_ok s invar true_outvar pred_outvar"
  shows "fst (call_st lin invar true_outvar pred_outvar s)
    = call lin (coords_in s invar) (fields_in s true_outvar) (fields_in s pred_outvar)"
proof -
  define cv where "cv a = (case mem s a of Some (Coords xs) \<Rightarrow> xs | _ \<Rightarrow> [])" for a
  define fv where "fv a = (case mem s a of Some (Field v) \<Rightarrow> v | _ \<Rightarrow> [])" for a
  have wi: "a < lim s \<and> mem s a = Some (Coords (cv a))" if "invar k = Some a" for k a
  proof -
    from ok that obtain xs where "a < lim s" "mem s a = Some (Coords xs)"
      unfolding inputs_ok_def by blast
    then show ?thesis by (simp add: cv_def)
  qed
  have wt: "a < lim s \<and> mem s a = Some (Field (fv a))" if "true_outvar k = Some a" for k a
  proof -
    from ok that obtain v where "a < lim s" "mem s a = Some (Field v)"
      unfolding inputs_ok_def by blast
    then show ?thesis by (simp add: fv_def)
  qed
  have wp: "a < lim s \<and> mem s a = Some (Field (fv a))" if "pred_outvar k = Some a" for k a
  proof -
    from ok that obtain v where "a < lim s" "mem s a = Some (Field v)"
      unfolding inputs_ok_def by blast
    then show ?thesis by (simp add: fv_def)
  qed
  have LC: "fst (thenS (liftE (getitem invar k)) f s') = thenE (getitem (coords_in s invar) k) g"
    if "\<And>a. a < lim s \<Longrightarrow> mem s a = Some (Coords (cv a)) \<Longrightarrow> fst (f a s') = g (cv a)"
    for k f s' g
  proof (cases "invar k")
    case None
    then show ?thesis by (simp add: thenS_liftE getitem_def coords_in_def)
  next
    case (Some a)
    with wi [OF Some] that [of a] show ?thesis
      by (simp add: thenS_liftE getitem_def coords_in_def)
  qed
  have LT: "fst (thenS (liftE (getitem true_outvar k)) f s')
      = thenE (getitem (fields_in s true_outvar) k) g"
    if "\<And>a. a < lim s \<Longrightarrow> mem s a = Some (Field (fv a)) \<Longrightarrow> fst (f a s') = g (fv a)"
    for k f s' g
  proof (cases "true_outvar k")
    case None
    then show ?thesis by (simp add: thenS_liftE getitem_def fields_in_def)
  next
    case (Some a)
    with wt [OF Some] that [of a] show ?thesis
      by (simp add: thenS_liftE getitem_def fields_in_def)
  qed
  have LP: "fst (thenS (liftE (getitem pred_outvar k)) f s')
      = thenE (getitem (fields_in s pred_outvar) k) g"
    if "\<And>a. a < lim s \<Longrightarrow> mem s a = Some (Field (fv a)) \<Longrightarrow> fst (f a s') = g (fv a)"
    for k f s' g
  proof (cases "pred_outvar k")
    case None
    then show ?thesis by (simp add: thenS_liftE getitem_def fields_in_def)
  next
    case (Some a)
    with wp [OF Some] that [of a] show ?thesis
      by (simp add: thenS_liftE getitem_def fields_in_def)
  qed
  have later: "mem (s\<lparr>mem := (mem s)(lim s \<mapsto> X), lim := Suc (lim s)\<rparr>) a = Some Y"
    if "a < lim s" "mem s a = Some Y" for a X Y
    using that by simp
  show ?thesis
    unfolding call_st_def call_def Let_def
    apply (rule LC)
    apply (rule LC)
    apply (rule link_get_coords, assumption)
    apply (rule link_liftE)
    apply (rule link_liftE)
    apply (rule link_get_coords, assumption)
    apply (rule link_liftE)
    apply (rule link_liftE)
    apply (rule LT)
    apply (rule LT)
    apply (rule LT)
    apply (rule LT)
    apply (rule LT)
    apply (rule link_scale_st, assumption)
    apply (rule LP)
    apply (rule LP)
    apply (rule LP)
    apply (rule LP)
    apply (rule LP)
    apply (rule link_scale_st, rule later, assumption, assumption)
    apply (rule link_tail)
        apply simp_all
    done
qed

section \<open>Claims about the fin mask\<close>

lemma inside_mask_rectangle: "inside (mask_rectangle fs j) x y = in_fin fs j x y"
  by (simp add: mask_rectangle_def in_fin_def)

lemma in_fin_nr_fins: "in_fin (fs\<lparr>nr_fins := n\<rparr>) j x y = in_fin fs j x y"
  by (simp add: in_fin_def fin_y_def)

lemma py_range_3: "py_range 3 = [0, 1, 2]"
  by (simp add: py_range_def upt_rec)

lemma run_consts:
  "heat_sink_origin = (Finite (- 1), Finite (- (5404319552844595 / 2 ^ 54)))"
  "run_gap = Finite (1 / 4)"
  "heat_sink_length = Finite 1"
  "heat_sink_fin_thickness = Finite (3602879701896397 / 2 ^ 55)"
  unfolding heat_sink_origin_def run_gap_def heat_sink_length_def heat_sink_fin_thickness_def
    d_m03 d_01 d_015 d_1
  by (simp_all only: vadd.simps fl_gap)

lemma fl_y2_run:
  "fl (- (900719925474099 / 2 ^ 54) + 1 / 4) = Finite (3602879701896397 / 2 ^ 54)"
  using fl_eval [of "3602879701896397 / 2 ^ 54" 55 "7205759403792794"]
    rne_of_int [of "7205759403792794"] by simp

lemma run_fins: "map int [1..<nat nr_heat_sink_fins] = [1, 2]"
  by (simp add: nr_heat_sink_fins_def upt_rec)

lemma run_heat_sink_eval:
  "run_heat_sink =
     [Rectangle (Finite (- 1), Finite (- (5404319552844595 / 2 ^ 54)))
        (Finite 0, Finite (- (7205759403792793 / 2 ^ 55))),
      Rectangle (Finite (- 1), Finite (- (900719925474099 / 2 ^ 54)))
        (Finite 0, Finite (3602879701896398 / 2 ^ 56)),
      Rectangle (Finite (- 1), Finite (3602879701896397 / 2 ^ 54))
        (Finite 0, Finite (5404319552844596 / 2 ^ 54))]"
  unfolding run_heat_sink_def run_fins
  by (simp only: foldl.simps run_pass_def fin_at_def Let_def fst_conv snd_conv run_consts
      append.simps vadd.simps fl_y1 fl_y2_run fl_u0 fl_u1 fl_u2 fl_x_upper)

lemma mask_rectangles_eval:
  "map (mask_rectangle hard_coded) (py_range (nr_fins hard_coded)) =
     [Rectangle (Finite (- 1), Finite (- (5404319552844595 / 2 ^ 54)))
        (Finite 0, Finite (- (7205759403792793 / 2 ^ 55))),
      Rectangle (Finite (- 1), Finite (- (900719925474099 / 2 ^ 54)))
        (Finite 0, Finite (3602879701896398 / 2 ^ 56)),
      Rectangle (Finite (- 1), Finite (3602879701896397 / 2 ^ 54))
        (Finite 0, Finite (5404319552844596 / 2 ^ 54))]"
  unfolding hc_fields(4) py_range_3
  by (simp only: list.map mask_rectangle_def fin_y_hc hc_fields vadd.simps
      fl_u0 fl_u1 fl_u2 fl_x_upper)



text \<open>
  The bounds, being floats, are not the decimal fractions \<open>-0.05\<close> and \<open>0.3\<close>: the
  second fin starts at \<^verbatim>\<open>-0.3 + 1 * 0.25 = -0.04999999999999999\<close>, above the two
  doubles nearest to \<open>-0.05\<close>, and the third fin ends at
  \<^verbatim>\<open>0.2 + 0.1 = 0.30000000000000004\<close>. The mask of the source marks neither of the
  two cells at \<open>y = -7205759403792794 / 2 ^ 57\<close> (the double \<^verbatim>\<open>-0.05\<close>) and
  \<open>y = -7205759403792793 / 2 ^ 57\<close> (the next double towards zero), and it marks the
  cell at \<open>y = 5404319552844596 / 2 ^ 54\<close> (the double \<^verbatim>\<open>0.30000000000000004\<close>).
\<close>

lemma heat_sink_mask_bound_cells:
  fixes xi yi :: grid
  defines "xi \<equiv> [[-0.5, -0.5, -0.5]]"
    and "yi \<equiv> [[- (7205759403792794 / 2 ^ 57), - (7205759403792793 / 2 ^ 57),
                 5404319552844596 / 2 ^ 54]]"
  shows "\<not> heat_sink_mask xi yi ! 0 ! 0" "\<not> heat_sink_mask xi yi ! 0 ! 1"
    "heat_sink_mask xi yi ! 0 ! 2"
proof -
  have s: "shape yi = shape xi" by (simp add: shape_def xi_def yi_def)
  have l: "0 < length xi" "0 < length (xi ! 0)" "1 < length (xi ! 0)" "2 < length (xi ! 0)"
    by (simp_all add: xi_def)
  show "\<not> heat_sink_mask xi yi ! 0 ! 0"
    unfolding nth_heat_sink_mask [OF s l(1,2)] in_fin_hc by (simp add: xi_def yi_def)
  show "\<not> heat_sink_mask xi yi ! 0 ! 1"
    unfolding nth_heat_sink_mask [OF s l(1,3)] in_fin_hc by (simp add: xi_def yi_def)
  show "heat_sink_mask xi yi ! 0 ! 2"
    unfolding nth_heat_sink_mask [OF s l(1,4)] in_fin_hc by (simp add: xi_def yi_def)
qed

text \<open>
  C7: with the other five constants fixed, a cell that the mask marks for \<open>n1\<close> fins is
  marked for every fin count \<open>n2 \<ge> n1\<close> as well.
\<close>

theorem heat_sink_mask_mono_nr_fins:
  assumes "shape yi = shape xi" "i < length xi" "c < length (xi ! i)" "n1 \<le> n2"
    and "heat_sink_mask_with (fs\<lparr>nr_fins := n1\<rparr>) xi yi ! i ! c"
  shows "heat_sink_mask_with (fs\<lparr>nr_fins := n2\<rparr>) xi yi ! i ! c"
proof -
  from assms(5) obtain j where j: "0 \<le> j" "j < n1"
    and f: "in_fin (fs\<lparr>nr_fins := n1\<rparr>) j (xi ! i ! c) (yi ! i ! c)"
    using nth_heat_sink_mask_with [OF assms(1-3), of "fs\<lparr>nr_fins := n1\<rparr>"] by auto
  from f have "in_fin (fs\<lparr>nr_fins := n2\<rparr>) j (xi ! i ! c) (yi ! i ! c)"
    by (simp add: in_fin_nr_fins)
  moreover from j assms(4) have "0 \<le> j \<and> j < n2" by simp
  ultimately show ?thesis
    using nth_heat_sink_mask_with [OF assms(1-3), of "fs\<lparr>nr_fins := n2\<rparr>"] by auto
qed

theorem heat_sink_mask_mono_nr_fins_witness:
  "shape [[-0.25::real]] = shape [[-0.5::real]] \<and> (0::nat) < length [[-0.5::real]] \<and>
   (0::nat) < length ([[-0.5::real]] ! 0) \<and> (1::int) \<le> 3 \<and>
   heat_sink_mask_with (hard_coded\<lparr>nr_fins := 1\<rparr>) [[-0.5]] [[-0.25]] ! 0 ! 0 \<and>
   heat_sink_mask_with (hard_coded\<lparr>nr_fins := 3\<rparr>) [[-0.5]] [[-0.25]] ! 0 ! 0"
proof -
  have a: "shape [[-0.25::real]] = shape [[-0.5::real]]" by (simp add: shape_def)
  have b: "(0::nat) < length [[-0.5::real]]" by simp
  have c: "(0::nat) < length ([[-0.5::real]] ! 0)" by simp
  have d: "(1::int) \<le> 3" by simp
  have "in_fin (hard_coded\<lparr>nr_fins := 1\<rparr>) 0 ([[-0.5]] ! 0 ! 0) ([[-0.25]] ! 0 ! 0)"
    unfolding in_fin_nr_fins in_fin_hc by simp
  then have e: "heat_sink_mask_with (hard_coded\<lparr>nr_fins := 1\<rparr>) [[-0.5]] [[-0.25]] ! 0 ! 0"
    using nth_heat_sink_mask_with [OF a b c, of "hard_coded\<lparr>nr_fins := 1\<rparr>"] by auto
  from heat_sink_mask_mono_nr_fins [OF a b c d e] a b c d e show ?thesis by blast
qed

text \<open>
  C1, as the code has it: with the constants of the source the three fins cover
  \<open>y\<close> in \<open>[-0.3, -0.2]\<close>, \<open>[-0.05, 0.05]\<close> and \<open>[0.2, 0.3]\<close>, each bound
  up to the rounding of the float sums (lemma \<open>in_fin_hc\<close> has the floats). A cell at
  \<open>(-0.5, -0.25)\<close> is marked; a cell at \<open>(-0.5, 0.0)\<close> lies in the second fin and is
  marked too; a cell at \<open>(-0.5, -0.1)\<close>, between the first two fins, is not marked.
\<close>

theorem heat_sink_mask_three_cells:
  assumes "shape yi = shape xi"
    and "i1 < length xi" "c1 < length (xi ! i1)"
      "xi ! i1 ! c1 = -0.5" "yi ! i1 ! c1 = -0.25"
    and "i2 < length xi" "c2 < length (xi ! i2)"
      "xi ! i2 ! c2 = -0.5" "yi ! i2 ! c2 = 0.0"
    and "i3 < length xi" "c3 < length (xi ! i3)"
      "xi ! i3 ! c3 = -0.5" "yi ! i3 ! c3 = -0.1"
  shows "heat_sink_mask xi yi ! i1 ! c1 \<and> heat_sink_mask xi yi ! i2 ! c2 \<and>
    \<not> heat_sink_mask xi yi ! i3 ! c3"
proof -
  have 1: "heat_sink_mask xi yi ! i1 ! c1"
    unfolding nth_heat_sink_mask [OF assms(1-3)] in_fin_hc assms(4,5) by simp
  have 2: "heat_sink_mask xi yi ! i2 ! c2"
    unfolding nth_heat_sink_mask [OF assms(1,6,7)] in_fin_hc assms(8,9) by simp
  have 3: "\<not> heat_sink_mask xi yi ! i3 ! c3"
    unfolding nth_heat_sink_mask [OF assms(1,10,11)] in_fin_hc assms(12,13) by simp
  from 1 2 3 show ?thesis by simp
qed

theorem heat_sink_mask_three_cells_witness:
  "heat_sink_mask [[-0.5, -0.5, -0.5]] [[-0.25, 0.0, -0.1]] ! 0 ! 0 \<and>
   heat_sink_mask [[-0.5, -0.5, -0.5]] [[-0.25, 0.0, -0.1]] ! 0 ! 1 \<and>
   \<not> heat_sink_mask [[-0.5, -0.5, -0.5]] [[-0.25, 0.0, -0.1]] ! 0 ! 2"
  using heat_sink_mask_three_cells [of "[[-0.25, 0.0, -0.1]]" "[[-0.5, -0.5, -0.5]]" 0 0 0 1 0 2]
  by (simp add: shape_def)

text \<open>
  The claim C1 as the specification words it wants the cell at \<open>(-0.5, 0.0)\<close> unmarked.
  On the grid of the two cells \<open>(-0.5, -0.25)\<close> and \<open>(-0.5, 0.0)\<close> the mask of the
  source marks both.
\<close>

theorem heat_sink_mask_gap_counterexample:
  "heat_sink_mask [[-0.5, -0.5]] [[-0.25, 0.0]] = [[True, True]]"
proof -
  let ?xi = "[[-0.5, -0.5]] :: grid" and ?yi = "[[-0.25, 0.0]] :: grid"
  have s: "shape ?yi = shape ?xi" by (simp add: shape_def)
  have "shape (heat_sink_mask ?xi ?yi) = shape ?xi"
    unfolding heat_sink_mask_def using s by (rule shape_heat_sink_mask_with)
  then have "map length (heat_sink_mask ?xi ?yi) = [2]" by (simp add: shape_def)
  then obtain a b where m: "heat_sink_mask ?xi ?yi = [[a, b]]"
    by (auto simp: map_eq_Cons_conv length_Suc_conv eval_nat_numeral)
  have l: "0 < length ?xi" "0 < length (?xi ! 0)" "1 < length (?xi ! 0)" by simp_all
  have "heat_sink_mask ?xi ?yi ! 0 ! 0"
    unfolding nth_heat_sink_mask [OF s l(1,2)] in_fin_hc by simp
  moreover have "heat_sink_mask ?xi ?yi ! 0 ! 1"
    unfolding nth_heat_sink_mask [OF s l(1,3)] in_fin_hc by simp
  ultimately show ?thesis unfolding m by simp
qed

text \<open>
  C8: the rectangles that \<^verbatim>\<open>run\<close> joins into the heat sink are, in order, the
  rectangles that the loop of \<^verbatim>\<open>heat_sink_mask\<close> tests with its own constants, and a
  cell is marked by the mask exactly when its coordinates lie in one of the rectangles of
  \<^verbatim>\<open>run\<close>.
\<close>

theorem mask_fins_are_run_fins:
  assumes "shape yi = shape xi" "i < length xi" "c < length (xi ! i)"
  shows "run_heat_sink = map (mask_rectangle hard_coded) (py_range (nr_fins hard_coded)) \<and>
    (heat_sink_mask xi yi ! i ! c \<longleftrightarrow>
      (\<exists>r\<in>set run_heat_sink. inside r (xi ! i ! c) (yi ! i ! c)))"
proof -
  have e: "run_heat_sink = map (mask_rectangle hard_coded) (py_range (nr_fins hard_coded))"
    by (simp only: run_heat_sink_eval mask_rectangles_eval)
  have "heat_sink_mask xi yi ! i ! c
      = (\<exists>j\<in>set (py_range (nr_fins hard_coded)).
           in_fin hard_coded j (xi ! i ! c) (yi ! i ! c))"
    unfolding heat_sink_mask_def
    using nth_heat_sink_mask_with [OF assms, of hard_coded] by (auto simp: set_py_range)
  also have "\<dots> = (\<exists>r\<in>set run_heat_sink. inside r (xi ! i ! c) (yi ! i ! c))"
    unfolding e by (simp add: inside_mask_rectangle)
  finally show ?thesis using e by simp
qed

theorem mask_fins_are_run_fins_witness:
  "shape [[0.25::real]] = shape [[-0.5::real]] \<and> (0::nat) < length [[-0.5::real]] \<and>
   (0::nat) < length ([[-0.5::real]] ! 0) \<and>
   run_heat_sink = map (mask_rectangle hard_coded) (py_range (nr_fins hard_coded)) \<and>
   (heat_sink_mask [[-0.5]] [[0.25]] ! 0 ! 0 \<longleftrightarrow>
      (\<exists>r\<in>set run_heat_sink. inside r ([[-0.5]] ! 0 ! 0) ([[0.25]] ! 0 ! 0)))"
proof -
  have a: "shape [[0.25::real]] = shape [[-0.5::real]]" by (simp add: shape_def)
  have b: "(0::nat) < length [[-0.5::real]]" by simp
  have c: "(0::nat) < length ([[-0.5::real]] ! 0)" by simp
  from mask_fins_are_run_fins [OF a b c] a b c show ?thesis by blast
qed

section \<open>Claims about \<^verbatim>\<open>interpolate_output\<close>\<close>

text \<open>
  C5, as the code has it: the step \<^verbatim>\<open>np.nan_to_num(val, nan=np.nan)\<close> keeps every
  not-a-number and every finite value, cell by cell, and is the identity on an array
  that holds no infinity; it replaces a positive infinity by the largest finite float and
  a negative infinity by the most negative one.
\<close>

theorem nan_to_num_pass_through:
  "(\<forall>i<length a. \<forall>j<length (a ! i).
      nan_to_num a ! i ! j =
        (case a ! i ! j of NaN \<Rightarrow> NaN | Finite r \<Rightarrow> Finite r
         | PosInf \<Rightarrow> Finite float_max | NegInf \<Rightarrow> Finite (- float_max))) \<and>
   ((\<forall>row\<in>set a. \<forall>v\<in>set row. v \<noteq> PosInf \<and> v \<noteq> NegInf) \<longrightarrow> nan_to_num a = a)"
proof -
  have c: "nan_to_num1 v =
        (case v of NaN \<Rightarrow> NaN | Finite r \<Rightarrow> Finite r
         | PosInf \<Rightarrow> Finite float_max | NegInf \<Rightarrow> Finite (- float_max))" for v
    by (cases v) simp_all
  have i: "nan_to_num1 v = v" if "v \<noteq> PosInf \<and> v \<noteq> NegInf" for v
    using that by (cases v) simp_all
  have "nan_to_num a = a" if "\<forall>row\<in>set a. \<forall>v\<in>set row. v \<noteq> PosInf \<and> v \<noteq> NegInf"
    unfolding nan_to_num_def using that by (simp add: i map_idI)
  then show ?thesis by (simp add: nth_nan_to_num c)
qed

theorem nan_to_num_pass_through_witness:
  "nan_to_num [[NaN, Finite 2, PosInf, NegInf]] ! 0 ! 0 = NaN \<and>
   nan_to_num [[NaN, Finite 2, PosInf, NegInf]] ! 0 ! 1 = Finite 2 \<and>
   nan_to_num [[NaN, Finite 2, PosInf, NegInf]] ! 0 ! 2 = Finite float_max \<and>
   nan_to_num [[NaN, Finite 2, PosInf, NegInf]] ! 0 ! 3 = Finite (- float_max) \<and>
   nan_to_num [[NaN, Finite 2]] = [[NaN, Finite 2]]"
  using nan_to_num_pass_through [of "[[NaN, Finite 2, PosInf, NegInf]]"]
    nan_to_num_pass_through [of "[[NaN, Finite 2]]"]
  by (simp add: nan_to_num_def)

text \<open>
  The claim C5 as the specification words it makes the step the identity on every array.
  An array that holds a positive infinity is changed: the infinity becomes the largest
  finite float.
\<close>

theorem nan_to_num_identity_counterexample:
  "nan_to_num [[PosInf]] = [[Finite float_max]] \<and> nan_to_num [[PosInf]] \<noteq> [[PosInf]]"
  by (simp add: nan_to_num_def)

text \<open>
  C6: when the interpolant accepts the sample points with every value array,
  \<^verbatim>\<open>interpolate_output\<close> returns, and every array it returns has 100 rows of 100
  entries.
\<close>

theorem interpolate_output_shape:
  assumes "\<forall>v\<in>set values. \<exists>f. lin x y v = Inr f"
  shows "\<exists>gs. interpolate_output lin x y values extent = Inr gs \<and>
    length gs = length values \<and>
    (\<forall>g\<in>set gs. length g = 100 \<and> (\<forall>row\<in>set g. length row = 100))"
proof -
  obtain xi yi where m: "mesh extent = (xi, yi)" by (cases "mesh extent") auto
  from assms have "lin x y v = Inr (projr (lin x y v))" if "v \<in> set values" for v
    using that by force
  then have l: "list_all2 (\<lambda>v f. lin x y v = Inr f) values (map (\<lambda>v. projr (lin x y v)) values)"
    by (simp add: list_all2_map2 list_all2_same)
  let ?gs = "map (\<lambda>f. where_masked (nan_to_num (map2 (map2 f) xi yi)) (heat_sink_mask xi yi))
               (map (\<lambda>v. projr (lin x y v)) values)"
  have r: "interpolate_output lin x y values extent = Inr ?gs"
    using m l by (rule interpolate_output_Inr)
  have "\<forall>g\<in>set ?gs. shape g = replicate 100 100"
    using shape_mesh_field [OF m] by auto
  then have "\<forall>g\<in>set ?gs. length g = 100 \<and> (\<forall>row\<in>set g. length row = 100)"
    by (simp only: shape_100)
  with r show ?thesis by (intro exI [of _ ?gs]) simp
qed

theorem interpolate_output_shape_witness:
  "\<exists>gs. interpolate_output const_lin ex_x ex_y [ones, zeros] (0, 1, 0, 1) = Inr gs \<and>
     length gs = 2 \<and> length (gs ! 0) = 100 \<and> length (gs ! 1 ! 99) = 100"
proof -
  have a: "\<forall>v\<in>set [ones, zeros]. \<exists>f. const_lin ex_x ex_y v = Inr f"
    by (simp add: const_lin_ex ones_def zeros_def)
  from interpolate_output_shape [of "[ones, zeros]" const_lin ex_x ex_y "(0, 1, 0, 1)", OF a]
  obtain gs where g: "interpolate_output const_lin ex_x ex_y [ones, zeros] (0, 1, 0, 1) = Inr gs"
    and l: "length gs = 2"
    and s: "\<forall>g\<in>set gs. length g = 100 \<and> (\<forall>row\<in>set g. length row = 100)"
    by auto
  from l have "gs ! 0 \<in> set gs" "gs ! 1 \<in> set gs" by simp_all
  with s have "length (gs ! 0) = 100" "length (gs ! 1) = 100"
    "\<forall>row\<in>set (gs ! 1). length row = 100" by blast+
  then have "length (gs ! 0) = 100" "length (gs ! 1 ! 99) = 100" by simp_all
  with g l show ?thesis by blast
qed

text \<open>
  C10: when the interpolant accepts the sample points with every value array,
  \<^verbatim>\<open>interpolate_output\<close> returns one array for each value array, the \<open>k\<close>-th from
  the \<open>k\<close>-th value array, and each is the interpolated array with the one mask
  \<open>heat_sink_mask xi yi\<close> of the grid applied: a cell is a not-a-number where the
  mask holds, and the interpolated value (after \<^verbatim>\<open>nan_to_num\<close>) elsewhere.
\<close>

theorem interpolate_output_per_field:
  assumes "mesh extent = (xi, yi)" "list_all2 (\<lambda>v f. lin x y v = Inr f) values fs"
  shows "\<exists>gs. interpolate_output lin x y values extent = Inr gs \<and>
    length gs = length values \<and>
    (\<forall>k<length values.
       gs ! k = where_masked (nan_to_num (map2 (map2 (fs ! k)) xi yi)) (heat_sink_mask xi yi) \<and>
       (\<forall>i<100. \<forall>j<100.
          gs ! k ! i ! j =
            (if heat_sink_mask xi yi ! i ! j then NaN
             else nan_to_num1 ((fs ! k) (xi ! i ! j) (yi ! i ! j)))))"
proof -
  let ?F = "\<lambda>f. where_masked (nan_to_num (map2 (map2 f) xi yi)) (heat_sink_mask xi yi)"
  have r: "interpolate_output lin x y values extent = Inr (map ?F fs)"
    using assms by (rule interpolate_output_Inr)
  have l: "length fs = length values"
    using assms(2) by (simp add: list_all2_lengthD)
  have "map ?F fs ! k = ?F (fs ! k)" if "k < length values" for k
    using that l by simp
  moreover have "?F (fs ! k) ! i ! j =
      (if heat_sink_mask xi yi ! i ! j then NaN
       else nan_to_num1 ((fs ! k) (xi ! i ! j) (yi ! i ! j)))"
    if "i < 100" "j < 100" for k i j
    using assms(1) that by (rule nth_mesh_field)
  ultimately show ?thesis
    using r l by (intro exI [of _ "map ?F fs"]) simp
qed

theorem interpolate_output_per_field_witness:
  "\<exists>gs. interpolate_output const_lin ex_x ex_y [ones, zeros] (0, 1, 0, 1) = Inr gs \<and>
     length gs = 2 \<and>
     gs ! 0 = where_masked
                (nan_to_num (map2 (map2 (\<lambda>_ _. Finite 1)) (fst (mesh (0, 1, 0, 1)))
                   (snd (mesh (0, 1, 0, 1)))))
                (heat_sink_mask (fst (mesh (0, 1, 0, 1))) (snd (mesh (0, 1, 0, 1)))) \<and>
     gs ! 1 = where_masked
                (nan_to_num (map2 (map2 (\<lambda>_ _. Finite 0)) (fst (mesh (0, 1, 0, 1)))
                   (snd (mesh (0, 1, 0, 1)))))
                (heat_sink_mask (fst (mesh (0, 1, 0, 1))) (snd (mesh (0, 1, 0, 1))))"
proof -
  have m: "mesh (0, 1, 0, 1) = (fst (mesh (0, 1, 0, 1)), snd (mesh (0, 1, 0, 1)))" by simp
  have a: "list_all2 (\<lambda>v f. const_lin ex_x ex_y v = Inr f) [ones, zeros]
      [\<lambda>_ _. Finite 1, \<lambda>_ _. Finite 0]"
    by (simp add: const_lin_ex ones_def zeros_def)
  from interpolate_output_per_field
    [of "(0, 1, 0, 1)" "fst (mesh (0, 1, 0, 1))" "snd (mesh (0, 1, 0, 1))" const_lin ex_x ex_y
       "[ones, zeros]" "[\<lambda>_ _. Finite 1, \<lambda>_ _. Finite 0]", OF m a]
  obtain gs where g: "interpolate_output const_lin ex_x ex_y [ones, zeros] (0, 1, 0, 1) = Inr gs"
    and l: "length gs = 2"
    and k: "\<forall>k<2. gs ! k = where_masked
         (nan_to_num (map2 (map2 ([\<lambda>_ _. Finite 1, \<lambda>_ _. Finite 0] ! k))
            (fst (mesh (0, 1, 0, 1))) (snd (mesh (0, 1, 0, 1)))))
         (heat_sink_mask (fst (mesh (0, 1, 0, 1))) (snd (mesh (0, 1, 0, 1))))"
    by auto
  from k [rule_format, of 0] k [rule_format, of 1] g l show ?thesis
    by (intro exI [of _ gs]) simp
qed

section \<open>Claims about \<^verbatim>\<open>__call__\<close>\<close>





lemma fl_m1: "fl (0 - 1) = Finite (- 1)"
  using fl_eval [of "- 1" 52 "- (2 ^ 52)"] rne_of_int [of "- (2 ^ 52)"] by simp

text \<open>
  C2, as the code has it: when the call returns, it returns one figure, labelled
  \<^verbatim>\<open>custom_plot\<close>, and for each of the five quantities the three panels of its row
  are titled "Modulus", "OpenFOAM" and "Difference". In every cell the "Modulus" panel
  holds the interpolated value of the field of \<^verbatim>\<open>pred_outvar\<close> (the predicted
  value) and the "OpenFOAM" panel that of the field of \<^verbatim>\<open>true_outvar\<close> (the
  reference value), a not-a-number in a masked cell; both are finite or not-a-number. The
  difference panel holds the reference value minus the predicted value where both are
  finite, as the float subtraction gives it (rounded, an infinity on overflow), and a
  not-a-number where either is a not-a-number. \<open>x\<close>, \<open>y\<close>, the extent, the grid, the
  two fields and their interpolants are named in the hypotheses; the field \<open>c\<close> is
  multiplied by \<^verbatim>\<open>273.15\<close> before it is interpolated.
\<close>

theorem difference_panel_cells:
  assumes "call lin invar true_outvar pred_outvar = Inr res" "q < 5" "r < 100" "c < 100"
    and "invar ''x'' = Some x" "invar ''y'' = Some y"
    and "np_min x = Inr x0" "np_max x = Inr x1" "np_min y = Inr y0" "np_max y = Inr y1"
    and "mesh (x0, x1, y0, y1) = (xi, yi)"
    and "true_outvar ([''p'', ''u'', ''v'', ''nu'', ''c''] ! q) = Some tf"
    and "pred_outvar ([''p'', ''u'', ''v'', ''nu'', ''c''] ! q) = Some pf"
    and "lin x y (if q = 4 then np_scale tf (double 273.15) else tf) = Inr ft"
    and "lin x y (if q = 4 then np_scale pf (double 273.15) else pf) = Inr fp"
  shows "\<exists>fig. res = [(fig, ''custom_plot'')] \<and>
    title (panels fig ! (3 * q)) = ''Modulus: '' @ [''p'', ''u'', ''v'', ''nu'', ''c''] ! q \<and>
    title (panels fig ! (3 * q + 1)) = ''OpenFOAM: '' @ [''p'', ''u'', ''v'', ''nu'', ''c''] ! q \<and>
    title (panels fig ! (3 * q + 2)) = ''Difference: '' @ [''p'', ''u'', ''v'', ''nu'', ''c''] ! q \<and>
    image (panels fig ! (3 * q)) ! r ! c
      = (if heat_sink_mask xi yi ! c ! r then NaN
         else nan_to_num1 (fp (xi ! c ! r) (yi ! c ! r))) \<and>
    image (panels fig ! (3 * q + 1)) ! r ! c
      = (if heat_sink_mask xi yi ! c ! r then NaN
         else nan_to_num1 (ft (xi ! c ! r) (yi ! c ! r))) \<and>
    (\<forall>a b. image (panels fig ! (3 * q + 1)) ! r ! c = Finite a \<and>
            image (panels fig ! (3 * q)) ! r ! c = Finite b \<longrightarrow>
            image (panels fig ! (3 * q + 2)) ! r ! c = fl (a - b)) \<and>
    (image (panels fig ! (3 * q + 1)) ! r ! c = NaN \<or> image (panels fig ! (3 * q)) ! r ! c = NaN
       \<longrightarrow> image (panels fig ! (3 * q + 2)) ! r ! c = NaN) \<and>
    (image (panels fig ! (3 * q)) ! r ! c = NaN
       \<or> (\<exists>a. image (panels fig ! (3 * q)) ! r ! c = Finite a)) \<and>
    (image (panels fig ! (3 * q + 1)) ! r ! c = NaN
       \<or> (\<exists>a. image (panels fig ! (3 * q + 1)) ! r ! c = Finite a))"
proof -
  from call_cells [OF assms(1-4)] obtain fig where f: "res = [(fig, ''custom_plot'')]"
    and t: "title (panels fig ! (3 * q)) = ''Modulus: '' @ [''p'', ''u'', ''v'', ''nu'', ''c''] ! q"
      "title (panels fig ! (3 * q + 1)) = ''OpenFOAM: '' @ [''p'', ''u'', ''v'', ''nu'', ''c''] ! q"
      "title (panels fig ! (3 * q + 2)) = ''Difference: '' @ [''p'', ''u'', ''v'', ''nu'', ''c''] ! q"
    and d: "image (panels fig ! (3 * q + 2)) ! r ! c
      = vsub (image (panels fig ! (3 * q + 1)) ! r ! c) (image (panels fig ! (3 * q)) ! r ! c)"
    and v: "image (panels fig ! (3 * q)) ! r ! c = NaN
       \<or> (\<exists>a. image (panels fig ! (3 * q)) ! r ! c = Finite a)"
      "image (panels fig ! (3 * q + 1)) ! r ! c = NaN
       \<or> (\<exists>a. image (panels fig ! (3 * q + 1)) ! r ! c = Finite a)"
    by blast
  from call_sources [OF assms] obtain fig' where f': "res = [(fig', ''custom_plot'')]"
    and s': "image (panels fig' ! (3 * q)) ! r ! c
      = (if heat_sink_mask xi yi ! c ! r then NaN
         else nan_to_num1 (fp (xi ! c ! r) (yi ! c ! r)))"
      "image (panels fig' ! (3 * q + 1)) ! r ! c
      = (if heat_sink_mask xi yi ! c ! r then NaN
         else nan_to_num1 (ft (xi ! c ! r) (yi ! c ! r)))"
    by blast
  from f f' have "fig' = fig" by simp
  note s = s' [unfolded this]
  have 1: "\<forall>a b. image (panels fig ! (3 * q + 1)) ! r ! c = Finite a \<and>
            image (panels fig ! (3 * q)) ! r ! c = Finite b \<longrightarrow>
            image (panels fig ! (3 * q + 2)) ! r ! c = fl (a - b)"
    unfolding d by simp
  have 2: "image (panels fig ! (3 * q + 1)) ! r ! c = NaN
       \<or> image (panels fig ! (3 * q)) ! r ! c = NaN
       \<longrightarrow> image (panels fig ! (3 * q + 2)) ! r ! c = NaN"
    unfolding d by (cases "image (panels fig ! (3 * q + 1)) ! r ! c") auto
  from f t s 1 2 v show ?thesis by blast
qed

theorem difference_panel_cells_witness:
  "call const_lin ex_invar ex_true ex_pred = Inr [(ex_fig, ''custom_plot'')] \<and>
   ex_invar ''x'' = Some ex_x \<and> ex_invar ''y'' = Some ex_y \<and>
   np_min ex_x = Inr 0 \<and> np_max ex_x = Inr 1 \<and> np_min ex_y = Inr 0 \<and> np_max ex_y = Inr 1 \<and>
   ex_true ''p'' = Some ones \<and> ex_pred ''p'' = Some zeros \<and>
   const_lin ex_x ex_y ones = Inr (\<lambda>_ _. Finite 1) \<and>
   const_lin ex_x ex_y zeros = Inr (\<lambda>_ _. Finite 0) \<and>
   title (panels ex_fig ! 2) = ''Difference: p'' \<and>
   image (panels ex_fig ! 0) ! 50 ! 50 = Finite 0 \<and>
   image (panels ex_fig ! 1) ! 50 ! 50 = Finite 1 \<and>
   image (panels ex_fig ! 2) ! 50 ! 50 = fl (1 - 0)"
proof -
  have q: "(0::nat) < 5" and r: "(50::nat) < 100" by simp_all
  have xy: "ex_invar ''x'' = Some ex_x" "ex_invar ''y'' = Some ex_y"
    by (simp_all add: ex_invar_def)
  have m: "mesh (0, 1, 0, 1) = (fst (mesh (0, 1, 0, 1)), snd (mesh (0, 1, 0, 1)))" by simp
  have tp: "ex_true ''p'' = Some ones" "ex_pred ''p'' = Some zeros"
    by (simp_all add: ex_true_def ex_pred_def)
  have t: "ex_true ([''p'', ''u'', ''v'', ''nu'', ''c''] ! 0) = Some ones"
    and p: "ex_pred ([''p'', ''u'', ''v'', ''nu'', ''c''] ! 0) = Some zeros"
    using tp by simp_all
  have l: "const_lin ex_x ex_y ones = Inr (\<lambda>_ _. Finite 1)"
    "const_lin ex_x ex_y zeros = Inr (\<lambda>_ _. Finite 0)"
    by (simp_all add: const_lin_ex ones_def zeros_def)
  have lt: "const_lin ex_x ex_y (if (0::nat) = 4 then np_scale ones (double 273.15) else ones)
      = Inr (\<lambda>_ _. Finite 1)"
    and lp: "const_lin ex_x ex_y (if (0::nat) = 4 then np_scale zeros (double 273.15) else zeros)
      = Inr (\<lambda>_ _. Finite 0)"
    using l by simp_all
  from difference_panel_cells [OF ex_panels(1) q r r xy np_ex m t p lt lp]
  obtain fig where
    f: "[(ex_fig, ''custom_plot'')] = [(fig, ''custom_plot'')]"
    and ti: "title (panels fig ! (3 * 0 + 2)) = ''Difference: '' @ [''p'', ''u'', ''v'', ''nu'', ''c''] ! 0"
    and s: "image (panels fig ! (3 * 0)) ! 50 ! 50
      = (if heat_sink_mask (fst (mesh (0, 1, 0, 1))) (snd (mesh (0, 1, 0, 1))) ! 50 ! 50 then NaN
         else nan_to_num1 (Finite 0))"
      "image (panels fig ! (3 * 0 + 1)) ! 50 ! 50
      = (if heat_sink_mask (fst (mesh (0, 1, 0, 1))) (snd (mesh (0, 1, 0, 1))) ! 50 ! 50 then NaN
         else nan_to_num1 (Finite 1))"
    and d: "\<forall>a b. image (panels fig ! (3 * 0 + 1)) ! 50 ! 50 = Finite a \<and>
            image (panels fig ! (3 * 0)) ! 50 ! 50 = Finite b \<longrightarrow>
            image (panels fig ! (3 * 0 + 2)) ! 50 ! 50 = fl (a - b)"
    by blast
  from f have e: "fig = ex_fig" by simp
  from ti have t2: "title (panels ex_fig ! 2) = ''Difference: p''"
    unfolding e by (simp add: numeral_2_eq_2)
  from s ex_mask_50 have c: "image (panels ex_fig ! 0) ! 50 ! 50 = Finite 0"
    "image (panels ex_fig ! 1) ! 50 ! 50 = Finite 1"
    unfolding e by simp_all
  from d [rule_format, of 1 0] c
  have "image (panels ex_fig ! 2) ! 50 ! 50 = fl (1 - 0)"
    unfolding e by (simp add: numeral_2_eq_2)
  with ex_panels(1) xy np_ex tp l t2 c show ?thesis by simp
qed

text \<open>
  The claim C2 as the specification words it puts predicted minus reference into the
  difference panel. On the validation set above the predicted pressure is \<open>0\<close> and the
  reference pressure is \<open>1\<close> at the grid cell \<open>(50, 50)\<close>; the difference panel holds
  \<open>1\<close> there, and predicted minus reference is \<open>-1\<close>.
\<close>

theorem difference_panel_sign_counterexample:
  "call const_lin ex_invar ex_true ex_pred = Inr [(ex_fig, ''custom_plot'')] \<and>
   title (panels ex_fig ! 0) = ''Modulus: p'' \<and>
   image (panels ex_fig ! 0) ! 50 ! 50 = Finite 0 \<and>
   title (panels ex_fig ! 1) = ''OpenFOAM: p'' \<and>
   image (panels ex_fig ! 1) ! 50 ! 50 = Finite 1 \<and>
   title (panels ex_fig ! 2) = ''Difference: p'' \<and>
   image (panels ex_fig ! 2) ! 50 ! 50 = Finite 1 \<and>
   vsub (image (panels ex_fig ! 0) ! 50 ! 50) (image (panels ex_fig ! 1) ! 50 ! 50) = Finite (- 1) \<and>
   image (panels ex_fig ! 2) ! 50 ! 50
     \<noteq> vsub (image (panels ex_fig ! 0) ! 50 ! 50) (image (panels ex_fig ! 1) ! 50 ! 50)"
proof -
  have q: "(0::nat) < 5" and r: "(50::nat) < 100" by simp_all
  from call_cells [OF ex_panels(1) q r r] obtain fig where
    f: "[(ex_fig, ''custom_plot'')] = [(fig, ''custom_plot'')]"
    and t: "title (panels fig ! (3 * 0)) = ''Modulus: '' @ [''p'', ''u'', ''v'', ''nu'', ''c''] ! 0"
      "title (panels fig ! (3 * 0 + 1)) = ''OpenFOAM: '' @ [''p'', ''u'', ''v'', ''nu'', ''c''] ! 0"
      "title (panels fig ! (3 * 0 + 2)) = ''Difference: '' @ [''p'', ''u'', ''v'', ''nu'', ''c''] ! 0"
    by blast
  from f have e: "fig = ex_fig" by simp
  from t have "title (panels ex_fig ! 0) = ''Modulus: p''"
    "title (panels ex_fig ! 1) = ''OpenFOAM: p''" "title (panels ex_fig ! 2) = ''Difference: p''"
    unfolding e by (simp_all add: numeral_2_eq_2)
  with ex_panels(1) ex_cells fl_m1 show ?thesis by simp
qed





section \<open>Claim about mutation\<close>

lemma inputs_ok_ex: "inputs_ok ex_store ex_invar_st ex_true_st ex_pred_st"
  unfolding inputs_ok_def ex_store_def ex_invar_st_def ex_true_st_def ex_pred_st_def
  by (auto split: if_splits)

lemma views_ex:
  "coords_in ex_store ex_invar_st = ex_invar"
  "fields_in ex_store ex_true_st = ex_true"
  "fields_in ex_store ex_pred_st = ex_pred"
  by (rule ext, simp add: coords_in_def fields_in_def ex_store_def ex_invar_st_def ex_invar_def
      ex_true_st_def ex_true_def ex_pred_st_def ex_pred_def)+

lemma call_st_ex:
  "fst (call_st const_lin ex_invar_st ex_true_st ex_pred_st ex_store)
    = Inr [(ex_fig, ''custom_plot'')]"
  using call_st_link [OF inputs_ok_ex, of const_lin] by (simp add: views_ex ex_panels(1))

text \<open>
  C9: run from any store in which the three mappings point to allocated arrays of the
  right kind, the call (whether it returns a figure or raises) leaves every array object
  that existed before it as it was; so the three mappings hold the same arrays after the
  call as before, and every write of the masking and of the differences goes to an object
  the call has created itself.
\<close>

theorem call_keeps_inputs:
  assumes "inputs_ok s invar true_outvar pred_outvar"
  shows "(\<forall>a<lim s. mem (snd (call_st lin invar true_outvar pred_outvar s)) a = mem s a) \<and>
    coords_in (snd (call_st lin invar true_outvar pred_outvar s)) invar = coords_in s invar \<and>
    fields_in (snd (call_st lin invar true_outvar pred_outvar s)) true_outvar
      = fields_in s true_outvar \<and>
    fields_in (snd (call_st lin invar true_outvar pred_outvar s)) pred_outvar
      = fields_in s pred_outvar"
proof -
  let ?s' = "snd (call_st lin invar true_outvar pred_outvar s)"
  have f: "\<forall>a<lim s. mem ?s' a = mem s a"
    using call_st_frame [of s lin invar true_outvar pred_outvar] by simp
  have i: "coords_in ?s' invar k = coords_in s invar k" for k
  proof (cases "invar k")
    case None
    then show ?thesis by (simp add: coords_in_def)
  next
    case (Some a)
    with assms have "a < lim s" unfolding inputs_ok_def by blast
    with f Some show ?thesis by (simp add: coords_in_def)
  qed
  have t: "fields_in ?s' true_outvar k = fields_in s true_outvar k" for k
  proof (cases "true_outvar k")
    case None
    then show ?thesis by (simp add: fields_in_def)
  next
    case (Some a)
    with assms have "a < lim s" unfolding inputs_ok_def by blast
    with f Some show ?thesis by (simp add: fields_in_def)
  qed
  have p: "fields_in ?s' pred_outvar k = fields_in s pred_outvar k" for k
  proof (cases "pred_outvar k")
    case None
    then show ?thesis by (simp add: fields_in_def)
  next
    case (Some a)
    with assms have "a < lim s" unfolding inputs_ok_def by blast
    with f Some show ?thesis by (simp add: fields_in_def)
  qed
  from f i t p show ?thesis by (simp add: fun_eq_iff)
qed

theorem call_keeps_inputs_witness:
  "inputs_ok ex_store ex_invar_st ex_true_st ex_pred_st \<and>
   fst (call_st const_lin ex_invar_st ex_true_st ex_pred_st ex_store)
     = Inr [(ex_fig, ''custom_plot'')] \<and>
   mem (snd (call_st const_lin ex_invar_st ex_true_st ex_pred_st ex_store)) 0 = Some (Coords ex_x) \<and>
   mem (snd (call_st const_lin ex_invar_st ex_true_st ex_pred_st ex_store)) 6 = Some (Field ones) \<and>
   mem (snd (call_st const_lin ex_invar_st ex_true_st ex_pred_st ex_store)) 11
     = Some (Field zeros) \<and>
   fields_in (snd (call_st const_lin ex_invar_st ex_true_st ex_pred_st ex_store)) ex_true_st ''c''
     = Some ones"
proof -
  note k = call_keeps_inputs [OF inputs_ok_ex, of const_lin]
  from k have a: "\<forall>a<lim ex_store.
      mem (snd (call_st const_lin ex_invar_st ex_true_st ex_pred_st ex_store)) a = mem ex_store a"
    by blast
  have l: "lim ex_store = 12" by (simp add: ex_store_def)
  from a l have
    "mem (snd (call_st const_lin ex_invar_st ex_true_st ex_pred_st ex_store)) 0 = mem ex_store 0"
    "mem (snd (call_st const_lin ex_invar_st ex_true_st ex_pred_st ex_store)) 6 = mem ex_store 6"
    "mem (snd (call_st const_lin ex_invar_st ex_true_st ex_pred_st ex_store)) 11 = mem ex_store 11"
    by simp_all
  then have m:
    "mem (snd (call_st const_lin ex_invar_st ex_true_st ex_pred_st ex_store)) 0 = Some (Coords ex_x)"
    "mem (snd (call_st const_lin ex_invar_st ex_true_st ex_pred_st ex_store)) 6 = Some (Field ones)"
    "mem (snd (call_st const_lin ex_invar_st ex_true_st ex_pred_st ex_store)) 11 = Some (Field zeros)"
    by (simp_all add: ex_store_def)
  from k have
    "fields_in (snd (call_st const_lin ex_invar_st ex_true_st ex_pred_st ex_store)) ex_true_st
      = fields_in ex_store ex_true_st"
    by blast
  then have "fields_in (snd (call_st const_lin ex_invar_st ex_true_st ex_pred_st ex_store))
      ex_true_st ''c'' = Some ones"
    by (simp add: fields_in_def ex_true_st_def ex_store_def)
  with inputs_ok_ex call_st_ex m show ?thesis by blast
qed

end
